theory Spec2Isabelle
  imports Main "HOL-Library.Word"
begin

unbundle bit_operations_syntax

section \<open>simpleperf JITDebugReader: on-target layouts\<close>

text \<open>
  The reader of \<^verbatim>\<open>simpleperf/JITDebugReader.cpp\<close> looks into another process: it reads
  the two debug descriptors of the ART runtime, walks the linked list of code entries
  behind each, and hands debug info to a callback. The structures of the target are
  fixed-width; addresses and 64-bit counters are \<open>64 word\<close>, the seqlocks and the
  size fields \<open>32 word\<close>, and all arithmetic on them wraps as in C++.
\<close>

type_synonym uint32_t = "32 word"
type_synonym uint64_t = "64 word"

text \<open>The template parameter \<^verbatim>\<open>ADDRT\<close> is instantiated with \<^verbatim>\<open>uint32_t\<close> and \<^verbatim>\<open>uint64_t\<close> only.\<close>

datatype ADDRT = ADDR_uint32_t | ADDR_uint64_t

fun sizeof_ADDRT :: "ADDRT \<Rightarrow> nat" where
  "sizeof_ADDRT ADDR_uint32_t = 4"
| "sizeof_ADDRT ADDR_uint64_t = 8"

text \<open>
  The preprocessor picks the entry layouts by the architecture simpleperf is built for
  (\<^verbatim>\<open>__x86_64__\<close>, \<^verbatim>\<open>__i386__\<close>, anything else).
\<close>

datatype host_arch = Host_x86_64 | Host_i386 | Host_other

text \<open>
  \<^verbatim>\<open>struct JITDescriptor<ADDRT>\<close>. The two address fields are widened to 64 bits; the magic
  is the array of 8 bytes. The fields carry the prefix \<open>raw_\<close>, since the reader's own
  \<^verbatim>\<open>Descriptor\<close> has fields of the same names.
\<close>

record JITDescriptor =
  raw_version :: uint32_t
  raw_action_flag :: uint32_t
  raw_relevant_entry_addr :: uint64_t
  raw_first_entry_addr :: uint64_t
  raw_magic :: string
  raw_flags :: uint32_t
  raw_sizeof_descriptor :: uint32_t
  raw_sizeof_entry :: uint32_t
  raw_action_seqlock :: uint32_t
  raw_action_timestamp :: uint64_t

text \<open>\<^verbatim>\<open>int AndroidVersion() const { return magic[7] - '0'; }\<close>\<close>

definition AndroidVersion :: "JITDescriptor \<Rightarrow> int" where
  "AndroidVersion d = int (of_char (raw_magic d ! 7)) - int (of_char CHR ''0'')"

text \<open>
  The sizes the \<^verbatim>\<open>static_assert\<close>s of the source fix: \<^verbatim>\<open>sizeof(JITDescriptor32) == 48\<close>,
  \<^verbatim>\<open>sizeof(JITDescriptor64) == 56\<close>, and the four entry layouts, which on x86 hosts are the
  packed ones.
\<close>

fun sizeof_JITDescriptor :: "ADDRT \<Rightarrow> nat" where
  "sizeof_JITDescriptor ADDR_uint32_t = 48"
| "sizeof_JITDescriptor ADDR_uint64_t = 56"

fun is_x86 :: "host_arch \<Rightarrow> bool" where
  "is_x86 Host_x86_64 = True"
| "is_x86 Host_i386 = True"
| "is_x86 Host_other = False"

definition sizeof_JITCodeEntry32 :: "host_arch \<Rightarrow> nat" where
  "sizeof_JITCodeEntry32 h = (if is_x86 h then 28 else 32)"

definition sizeof_JITCodeEntry32V2 :: "host_arch \<Rightarrow> nat" where
  "sizeof_JITCodeEntry32V2 h = (if is_x86 h then 32 else 40)"

definition sizeof_JITCodeEntry64 :: "host_arch \<Rightarrow> nat" where
  "sizeof_JITCodeEntry64 h = 40"

definition sizeof_JITCodeEntry64V2 :: "host_arch \<Rightarrow> nat" where
  "sizeof_JITCodeEntry64V2 h = 48"

text \<open>
  \<^verbatim>\<open>strncmp(magic_str, "Android1", 8) == 0\<close> on the 8-byte array: neither literal has a NUL
  among its first 8 characters, so the call is 0 exactly when the 8 bytes are the literal's.
\<close>

definition strncmp8_is_0 :: "string \<Rightarrow> string \<Rightarrow> bool" where
  "strncmp8_is_0 magic_str lit = (take 8 magic_str = take 8 lit)"

text \<open>
  \<^verbatim>\<open>JITDescriptor<ADDRT>::Valid\<close>. The last two returns are written
  \<^verbatim>\<open>return sizeof_entry == (AndroidVersion() == 1) ? sizeof(JITCodeEntry32) : sizeof(JITCodeEntry32V2);\<close>
  and C++ parses \<^verbatim>\<open>a == b ? x : y\<close> as \<^verbatim>\<open>(a == b) ? x : y\<close>: the condition compares
  \<^verbatim>\<open>sizeof_entry\<close> with the bool \<^verbatim>\<open>AndroidVersion() == 1\<close> (promoted to 0 or 1), the
  conditional yields one of the two \<^verbatim>\<open>size_t\<close> values, and the return converts it to bool
  (non-zero is true).
\<close>

definition JITDescriptor_Valid :: "host_arch \<Rightarrow> ADDRT \<Rightarrow> JITDescriptor \<Rightarrow> bool" where
  "JITDescriptor_Valid h a d =
    (if raw_version d \<noteq> 1 \<or>
        \<not> (strncmp8_is_0 (raw_magic d) ''Android1'' \<or> strncmp8_is_0 (raw_magic d) ''Android2'')
     then False
     else if sizeof_JITDescriptor a \<noteq> unat (raw_sizeof_descriptor d) then False
     else if sizeof_ADDRT a = 4 then
       (if raw_sizeof_entry d = of_bool (AndroidVersion d = 1)
        then sizeof_JITCodeEntry32 h else sizeof_JITCodeEntry32V2 h) \<noteq> 0
     else
       (if raw_sizeof_entry d = of_bool (AndroidVersion d = 1)
        then sizeof_JITCodeEntry64 h else sizeof_JITCodeEntry64V2 h) \<noteq> 0)"

text \<open>
  The code-entry size the descriptor's magic and the target's bitness call for: what the
  two conditionals of \<^verbatim>\<open>Valid\<close> select between.
\<close>

definition expected_sizeof_entry :: "host_arch \<Rightarrow> ADDRT \<Rightarrow> JITDescriptor \<Rightarrow> nat" where
  "expected_sizeof_entry h a d =
    (if sizeof_ADDRT a = 4
     then (if AndroidVersion d = 1 then sizeof_JITCodeEntry32 h else sizeof_JITCodeEntry32V2 h)
     else (if AndroidVersion d = 1 then sizeof_JITCodeEntry64 h else sizeof_JITCodeEntry64V2 h))"

datatype DescriptorType = kJIT | kDEX

text \<open>
  \<^verbatim>\<open>struct Descriptor\<close> of the reader (declared in JITDebugReader.h; its fields are the
  ones this file reads and writes).
\<close>

record Descriptor =
  type :: DescriptorType
  version :: int
  action_seqlock :: uint32_t
  action_timestamp :: uint64_t
  first_entry_addr :: uint64_t

text \<open>
  \<^verbatim>\<open>JITDebugReader::ParseDescriptor\<close>: \<open>None\<close> is \<^verbatim>\<open>return false\<close>; otherwise the four
  fields are written into the caller's descriptor, whose type tag is left as it was.
\<close>

definition ParseDescriptor ::
  "host_arch \<Rightarrow> ADDRT \<Rightarrow> JITDescriptor \<Rightarrow> Descriptor \<Rightarrow> Descriptor option" where
  "ParseDescriptor h a raw_descriptor descriptor =
    (if \<not> JITDescriptor_Valid h a raw_descriptor then None
     else Some (descriptor\<lparr>action_seqlock := raw_action_seqlock raw_descriptor,
                           action_timestamp := raw_action_timestamp raw_descriptor,
                           first_entry_addr := raw_first_entry_addr raw_descriptor,
                           version := AndroidVersion raw_descriptor\<rparr>))"

text \<open>
  The code entries of the target: \<^verbatim>\<open>JITCodeEntry\<close>, \<^verbatim>\<open>PackedJITCodeEntry\<close> (magic
  "Android1") and \<^verbatim>\<open>JITCodeEntryV2\<close>, \<^verbatim>\<open>PackedJITCodeEntryV2\<close>, \<^verbatim>\<open>PaddedJITCodeEntryV2\<close>
  (magic "Android2"). One record holds the fields of all of them, addresses widened to 64
  bits; a version-1 entry has no \<open>seqlock\<close> and its \<open>Valid\<close> never reads the field.
\<close>

record JITCodeEntry =
  next_addr :: uint64_t
  prev_addr :: uint64_t
  symfile_addr :: uint64_t
  symfile_size :: uint64_t
  register_timestamp :: uint64_t
  seqlock :: uint32_t

text \<open>\<^verbatim>\<open>bool Valid() const { return symfile_addr > 0u && symfile_size > 0u; }\<close>\<close>

definition JITCodeEntry_Valid :: "JITCodeEntry \<Rightarrow> bool" where
  "JITCodeEntry_Valid e = (symfile_addr e > 0 \<and> symfile_size e > 0)"

text \<open>\<^verbatim>\<open>bool Valid() const { return (seqlock & 1) == 0; }\<close> (all three version-2 layouts)\<close>

definition JITCodeEntryV2_Valid :: "JITCodeEntry \<Rightarrow> bool" where
  "JITCodeEntryV2_Valid e = (seqlock e AND 1 = 0)"


section \<open>The monitored process and the target's memory\<close>

text \<open>
  \<^verbatim>\<open>struct CodeEntry\<close> of the reader: what the walk keeps of one entry of the target. Its
  \<^verbatim>\<open>symfile_addr\<close> and \<^verbatim>\<open>symfile_size\<close> are named \<open>code_symfile_addr\<close> and
  \<open>code_symfile_size\<close> here, apart from the fields of the target's entry.
\<close>

record CodeEntry =
  addr :: uint64_t
  code_symfile_addr :: uint64_t
  code_symfile_size :: uint64_t
  timestamp :: uint64_t

text \<open>
  \<^verbatim>\<open>struct Process\<close> of the reader. The last field is not a member of the source's struct:
  it lists the \<^verbatim>\<open>process_vm_readv\<close> calls issued on the process so far, each with its remote
  (address, length) ranges, so that what the reader reads, how often and when can be
  stated.
\<close>

record Process =
  pid :: int
  initialized :: bool
  died :: bool
  is_64bit :: bool
  jit_descriptor_addr :: uint64_t
  dex_descriptor_addr :: uint64_t
  last_jit_descriptor :: Descriptor
  last_dex_descriptor :: Descriptor
  jit_zygote_cache_ranges :: "(uint64_t \<times> uint64_t) list"
  vm_readv_calls :: "(uint64_t \<times> uint64_t) list list"

text \<open>\<^verbatim>\<open>struct ThreadMmap\<close> (environment.h): one line of the target's memory map.\<close>

record ThreadMmap =
  start_addr :: uint64_t
  len :: uint64_t
  pgoff :: uint64_t
  prot :: uint32_t
  name :: string

text \<open>
  The target runs while it is read, so two reads may see different memory. A \<open>Target\<close>
  is the target at one moment: what a read of the descriptor pair, of a code entry at an
  address, or of a byte range would transfer (\<open>None\<close>: the transfer comes back short),
  and its memory map as \<^verbatim>\<open>GetThreadMmapsInProcess\<close> would return it (\<open>None\<close>: the call
  fails). A \<open>World\<close> gives the target at the moment of the n-th \<^verbatim>\<open>process_vm_readv\<close>
  call on the process. The bytes of a symfile are kept abstract (\<open>'d\<close>).
\<close>

record 'd Target =
  read_descriptors :: "(JITDescriptor \<times> JITDescriptor) option"
  read_entry :: "uint64_t \<Rightarrow> JITCodeEntry option"
  read_bytes :: "uint64_t \<Rightarrow> uint64_t \<Rightarrow> 'd option"
  thread_mmaps_of :: "ThreadMmap list option"

type_synonym 'd World = "nat \<Rightarrow> 'd Target"

text \<open>The moment of the next read on a process: the number of calls issued so far.\<close>

definition now :: "Process \<Rightarrow> nat" where
  "now process = length (vm_readv_calls process)"

text \<open>
  \<^verbatim>\<open>JITDebugReader::ReadRemoteMem\<close>. \<open>transfer\<close> says what the call transfers at a given
  moment; a short transfer sets \<^verbatim>\<open>process.died\<close> and returns false (\<open>None\<close>).
\<close>

definition ReadRemoteMem ::
  "(nat \<Rightarrow> 'a option) \<Rightarrow> Process \<Rightarrow> uint64_t \<Rightarrow> uint64_t \<Rightarrow> Process \<times> 'a option" where
  "ReadRemoteMem transfer process remote_addr sz =
    (let result = transfer (now process);
         process = process\<lparr>vm_readv_calls := vm_readv_calls process @ [[(remote_addr, sz)]]\<rparr>
     in case result of
          None \<Rightarrow> (process\<lparr>died := True\<rparr>, None)
        | Some data \<Rightarrow> (process, Some data))"

text \<open>
  \<^verbatim>\<open>JITDebugReader::ReadDescriptorsImpl<DescriptorT>\<close>: one vector read of both descriptors,
  then \<^verbatim>\<open>ParseDescriptor\<close> on each. \<open>None\<close> is \<^verbatim>\<open>return false\<close>.
\<close>

definition ReadDescriptorsImpl ::
  "host_arch \<Rightarrow> ADDRT \<Rightarrow> 'd World \<Rightarrow> Process \<Rightarrow> Descriptor \<Rightarrow> Descriptor \<Rightarrow>
   Process \<times> (Descriptor \<times> Descriptor) option" where
  "ReadDescriptorsImpl h a world process jit_descriptor dex_descriptor =
    (let result = read_descriptors (world (now process));
         process = process\<lparr>vm_readv_calls := vm_readv_calls process @
           [[(jit_descriptor_addr process, of_nat (sizeof_JITDescriptor a)),
             (dex_descriptor_addr process, of_nat (sizeof_JITDescriptor a))]]\<rparr>
     in case result of
          None \<Rightarrow> (process\<lparr>died := True\<rparr>, None)
        | Some (raw_jit_descriptor, raw_dex_descriptor) \<Rightarrow>
            (case ParseDescriptor h a raw_jit_descriptor jit_descriptor of
               None \<Rightarrow> (process, None)
             | Some jit_descriptor \<Rightarrow>
                 (case ParseDescriptor h a raw_dex_descriptor dex_descriptor of
                    None \<Rightarrow> (process, None)
                  | Some dex_descriptor \<Rightarrow>
                      (process, Some (jit_descriptor\<lparr>type := kJIT\<rparr>,
                                      dex_descriptor\<lparr>type := kDEX\<rparr>)))))"

text \<open>\<^verbatim>\<open>JITDebugReader::ReadDescriptors\<close>\<close>

definition ReadDescriptors ::
  "host_arch \<Rightarrow> 'd World \<Rightarrow> Process \<Rightarrow> Descriptor \<Rightarrow> Descriptor \<Rightarrow>
   Process \<times> (Descriptor \<times> Descriptor) option" where
  "ReadDescriptors h world process jit_descriptor dex_descriptor =
    (if is_64bit process
     then ReadDescriptorsImpl h ADDR_uint64_t world process jit_descriptor dex_descriptor
     else ReadDescriptorsImpl h ADDR_uint32_t world process jit_descriptor dex_descriptor)"

text \<open>
  A default-constructed \<^verbatim>\<open>Descriptor\<close>. Every field is overwritten before it is read
  (\<^verbatim>\<open>ParseDescriptor\<close> sets four, \<^verbatim>\<open>ReadDescriptorsImpl\<close> the type).
\<close>

definition Descriptor_init :: Descriptor where
  "Descriptor_init =
    \<lparr>type = kJIT, version = 0, action_seqlock = 0, action_timestamp = 0, first_entry_addr = 0\<rparr>"

text \<open>
  \<^verbatim>\<open>JITDebugReader::IsDescriptorChanged\<close>: reads both descriptors again and compares the
  seqlock of the one of \<open>prev_descriptor\<close>'s kind; a failed read counts as changed.
\<close>

definition IsDescriptorChanged ::
  "host_arch \<Rightarrow> 'd World \<Rightarrow> Process \<Rightarrow> Descriptor \<Rightarrow> bool \<times> Process" where
  "IsDescriptorChanged h world process prev_descriptor =
    (case ReadDescriptors h world process Descriptor_init Descriptor_init of
       (process, None) \<Rightarrow> (True, process)
     | (process, Some (tmp_jit_descriptor, tmp_dex_descriptor)) \<Rightarrow>
         if type prev_descriptor = kJIT
         then (action_seqlock prev_descriptor \<noteq> action_seqlock tmp_jit_descriptor, process)
         else (action_seqlock prev_descriptor \<noteq> action_seqlock tmp_dex_descriptor, process))"

section \<open>Walking the list of code entries\<close>

text \<open>
  The loop of \<^verbatim>\<open>JITDebugReader::ReadNewCodeEntriesImpl<CodeEntryT>\<close>, its variables as
  arguments. \<open>Valid\<close> and \<open>sizeof_entry\<close> are \<^verbatim>\<open>CodeEntryT::Valid\<close> and
  \<^verbatim>\<open>sizeof(CodeEntryT)\<close>. The result is the returned bool, the process and the vector
  \<^verbatim>\<open>new_code_entries\<close> as the function leaves it.
\<close>

function ReadNewCodeEntriesImpl_loop ::
  "(JITCodeEntry \<Rightarrow> bool) \<Rightarrow> nat \<Rightarrow> 'd World \<Rightarrow> uint64_t \<Rightarrow> uint32_t \<Rightarrow>
   Process \<Rightarrow> nat \<Rightarrow> uint64_t \<Rightarrow> uint64_t \<Rightarrow> uint64_t set \<Rightarrow> CodeEntry list \<Rightarrow>
   bool \<times> Process \<times> CodeEntry list" where
  "ReadNewCodeEntriesImpl_loop Valid sizeof_entry world last_action_timestamp read_entry_limit
      process i current_entry_addr prev_entry_addr entry_addr_set new_code_entries =
    (if i < unat read_entry_limit \<and> current_entry_addr \<noteq> 0 then
       if current_entry_addr \<in> entry_addr_set then (False, process, new_code_entries)
       else
         (case ReadRemoteMem (\<lambda>t. read_entry (world t) current_entry_addr) process
                 current_entry_addr (of_nat sizeof_entry) of
            (process, None) \<Rightarrow> (False, process, new_code_entries)
          | (process, Some entry) \<Rightarrow>
              if prev_addr entry \<noteq> prev_entry_addr \<or> \<not> Valid entry
              then (False, process, new_code_entries)
              else if register_timestamp entry \<le> last_action_timestamp
              then (True, process, new_code_entries)
              else ReadNewCodeEntriesImpl_loop Valid sizeof_entry world last_action_timestamp
                     read_entry_limit process (i + 1) (next_addr entry) current_entry_addr
                     (insert current_entry_addr entry_addr_set)
                     (if symfile_size entry > 0
                      then new_code_entries @
                        [\<lparr>addr = current_entry_addr, code_symfile_addr = symfile_addr entry,
                          code_symfile_size = symfile_size entry,
                          timestamp = register_timestamp entry\<rparr>]
                      else new_code_entries))
     else (True, process, new_code_entries))"
  by pat_completeness auto
termination
  by (relation "measure (\<lambda>(Valid, sizeof_entry, world, last_action_timestamp, read_entry_limit,
        process, i, rest). unat read_entry_limit - i)") auto

declare ReadNewCodeEntriesImpl_loop.simps [simp del]

text \<open>\<^verbatim>\<open>JITDebugReader::ReadNewCodeEntriesImpl<CodeEntryT>\<close>\<close>

definition ReadNewCodeEntriesImpl ::
  "(JITCodeEntry \<Rightarrow> bool) \<Rightarrow> nat \<Rightarrow> 'd World \<Rightarrow> Process \<Rightarrow> Descriptor \<Rightarrow> uint64_t \<Rightarrow>
   uint32_t \<Rightarrow> CodeEntry list \<Rightarrow> bool \<times> Process \<times> CodeEntry list" where
  "ReadNewCodeEntriesImpl Valid sizeof_entry world process descriptor last_action_timestamp
      read_entry_limit new_code_entries =
    ReadNewCodeEntriesImpl_loop Valid sizeof_entry world last_action_timestamp read_entry_limit
      process 0 (first_entry_addr descriptor) 0 {} new_code_entries"

text \<open>
  \<^verbatim>\<open>JITDebugReader::ReadNewCodeEntries\<close>: the entry layout by the descriptor's version and
  the target's bitness; any other version returns false.
\<close>

definition ReadNewCodeEntries ::
  "host_arch \<Rightarrow> 'd World \<Rightarrow> Process \<Rightarrow> Descriptor \<Rightarrow> uint64_t \<Rightarrow> uint32_t \<Rightarrow>
   CodeEntry list \<Rightarrow> bool \<times> Process \<times> CodeEntry list" where
  "ReadNewCodeEntries h world process descriptor last_action_timestamp read_entry_limit
      new_code_entries =
    (if version descriptor = 1 then
       if is_64bit process
       then ReadNewCodeEntriesImpl JITCodeEntry_Valid (sizeof_JITCodeEntry64 h) world process
              descriptor last_action_timestamp read_entry_limit new_code_entries
       else ReadNewCodeEntriesImpl JITCodeEntry_Valid (sizeof_JITCodeEntry32 h) world process
              descriptor last_action_timestamp read_entry_limit new_code_entries
     else if version descriptor = 2 then
       if is_64bit process
       then ReadNewCodeEntriesImpl JITCodeEntryV2_Valid (sizeof_JITCodeEntry64V2 h) world process
              descriptor last_action_timestamp read_entry_limit new_code_entries
       else ReadNewCodeEntriesImpl JITCodeEntryV2_Valid (sizeof_JITCodeEntry32V2 h) world process
              descriptor last_action_timestamp read_entry_limit new_code_entries
     else (False, process, new_code_entries))"


section \<open>Debug info, scratch files and the collaborators\<close>

text \<open>\<^verbatim>\<open>struct ElfFileSymbol\<close> (read_elf.h), as far as the reader looks at it.\<close>

record ElfFileSymbol =
  sym_vaddr :: uint64_t
  sym_len :: uint64_t
  sym_name :: string

text \<open>
  \<^verbatim>\<open>struct JITDebugInfo\<close> (JITDebugReader.h), by the two constructors this file calls:
  for JIT code (pid, timestamp, code address, code length, file path, file offset) and for
  a dex file (pid, timestamp, dex file offset, file path, extracted dex file map).
\<close>

datatype JITDebugInfo =
    JitCodeDebugInfo int uint64_t uint64_t uint64_t string uint64_t
  | DexFileDebugInfo int uint64_t uint64_t string "ThreadMmap option"

fun info_timestamp :: "JITDebugInfo \<Rightarrow> uint64_t" where
  "info_timestamp (JitCodeDebugInfo p ts a l f off) = ts"
| "info_timestamp (DexFileDebugInfo p ts off f m) = ts"

text \<open>
  Modelled from the spec: \<^verbatim>\<open>class TempSymFile\<close>, which is not among the sources. A scratch
  file has a path and a current offset, and a successful write appends the bytes, so the
  offset grows by their number (also when the file drops the bytes).
\<close>

record TempSymFile =
  path :: string
  offset :: uint64_t

text \<open>
  The collaborators the reader calls and the sources do not hold; they are parameters.
  \<open>ElfFile_symbols\<close> is \<^verbatim>\<open>ElfFile::Open\<close> followed by \<^verbatim>\<open>ParseSymbols\<close>: \<open>None\<close> when the
  open fails, else the symbols in the order the callback sees them. \<open>WriteEntry_ok\<close> says
  whether \<^verbatim>\<open>TempSymFile::WriteEntry\<close> succeeds; \<open>TempSymFile_Create\<close> may return a null
  pointer (\<open>None\<close>). The two fixed file names \<^verbatim>\<open>kJITAppCacheFile\<close> and
  \<^verbatim>\<open>kJITZygoteCacheFile\<close> are declared in JITDebugReader.h.
\<close>

record 'd Env =
  IsValidElfFileMagic :: "'d \<Rightarrow> uint64_t \<Rightarrow> bool"
  ElfFile_symbols :: "'d \<Rightarrow> uint64_t \<Rightarrow> ElfFileSymbol list option"
  TempSymFile_Create :: "string \<Rightarrow> bool \<Rightarrow> TempSymFile option"
  WriteEntry_ok :: "TempSymFile \<Rightarrow> 'd \<Rightarrow> uint64_t \<Rightarrow> bool"
  ParseExtractedInMemoryPath :: "string \<Rightarrow> (string \<times> string) option"
  GetUrlInApk :: "string \<Rightarrow> string \<Rightarrow> string"
  IsRegularFile :: "string \<Rightarrow> bool"
  debug_info_callback :: "JITDebugInfo list \<Rightarrow> bool \<Rightarrow> bool"
  kJITAppCacheFile :: string
  kJITZygoteCacheFile :: string

datatype SymFileOption = kDropSymFiles | kKeepSymFiles

datatype SyncOption = kNoSync | kSyncWithRecords

text \<open>
  The members of \<^verbatim>\<open>class JITDebugReader\<close> this file uses, named without the trailing
  underscore of the source (an Isabelle name cannot end in one). \<^verbatim>\<open>debug_info_q_\<close> is a
  \<^verbatim>\<open>std::priority_queue\<close> whose comparator is declared in the header; it is kept as the
  list of its elements in the order \<^verbatim>\<open>top\<close>/\<^verbatim>\<open>pop\<close> would hand them out (see \<open>q_push\<close>).
  The last field is not a member: it lists the calls of the callback, oldest first, each
  with the batch and the flag it was given.
\<close>

record JITDebugReader =
  symfile_prefix :: string
  symfile_option :: SymFileOption
  sync_option :: SyncOption
  app_symfile :: "TempSymFile option"
  zygote_symfile :: "TempSymFile option"
  debug_info_q :: "JITDebugInfo list"
  callback_calls :: "(JITDebugInfo list \<times> bool) list"

text \<open>
  Modelled from the spec: \<^verbatim>\<open>kMegabyte\<close>, declared in utils.h, which is not among the
  sources. The spec gives the cap as 1 MiB, 1048576 bytes.
\<close>

definition kMegabyte :: uint64_t where
  "kMegabyte = 1024 * 1024"

text \<open>\<^verbatim>\<open>static constexpr size_t MAX_JIT_SYMFILE_SIZE = 1 * kMegabyte;\<close>\<close>

definition MAX_JIT_SYMFILE_SIZE :: uint64_t where
  "MAX_JIT_SYMFILE_SIZE = 1 * kMegabyte"

text \<open>\<^verbatim>\<open>%" PRIu64 "\<close>: an unsigned number in decimal.\<close>

fun PRIu64 :: "nat \<Rightarrow> string" where
  "PRIu64 n =
    (if n < 10 then [''0123456789'' ! n] else PRIu64 (n div 10) @ [''0123456789'' ! (n mod 10)])"

declare PRIu64.simps [simp del]

section \<open>Ingesting JIT symfiles\<close>

text \<open>
  \<^verbatim>\<open>JITDebugReader::GetTempSymFile\<close> returns a pointer to one of the reader's two scratch
  files, creating it on first use; the model returns which of the two (\<open>None\<close>: the pointer
  is null, which is what a failed \<^verbatim>\<open>TempSymFile::Create\<close> leaves).
\<close>

datatype symfile_slot = Zygote_symfile | App_symfile

definition GetTempSymFile ::
  "'d Env \<Rightarrow> JITDebugReader \<Rightarrow> Process \<Rightarrow> CodeEntry \<Rightarrow> JITDebugReader \<times> symfile_slot option" where
  "GetTempSymFile env reader process jit_entry =
    (let is_zygote =
           list_ex (\<lambda>range. code_symfile_addr jit_entry \<ge> fst range \<and>
                            code_symfile_addr jit_entry < snd range)
                   (jit_zygote_cache_ranges process)
     in if is_zygote then
          let reader =
                (if zygote_symfile reader = None
                 then reader\<lparr>zygote_symfile :=
                        TempSymFile_Create env
                          (symfile_prefix reader @ ''_'' @ kJITZygoteCacheFile env)
                          (symfile_option reader = kDropSymFiles)\<rparr>
                 else reader)
          in (reader, if zygote_symfile reader = None then None else Some Zygote_symfile)
        else
          let reader =
                (if app_symfile reader = None
                 then reader\<lparr>app_symfile :=
                        TempSymFile_Create env
                          (symfile_prefix reader @ ''_'' @ kJITAppCacheFile env)
                          (symfile_option reader = kDropSymFiles)\<rparr>
                 else reader)
          in (reader, if app_symfile reader = None then None else Some App_symfile))"

fun symfile_at :: "symfile_slot \<Rightarrow> JITDebugReader \<Rightarrow> TempSymFile option" where
  "symfile_at Zygote_symfile reader = zygote_symfile reader"
| "symfile_at App_symfile reader = app_symfile reader"

fun symfile_put :: "symfile_slot \<Rightarrow> TempSymFile \<Rightarrow> JITDebugReader \<Rightarrow> JITDebugReader" where
  "symfile_put Zygote_symfile f reader = reader\<lparr>zygote_symfile := Some f\<rparr>"
| "symfile_put App_symfile f reader = reader\<lparr>app_symfile := Some f\<rparr>"

text \<open>
  The records one symfile yields: the callback handed to \<^verbatim>\<open>ParseSymbols\<close> skips symbols of
  length 0 and appends one record for each other symbol.
\<close>

definition symbol_infos ::
  "int \<Rightarrow> CodeEntry \<Rightarrow> TempSymFile \<Rightarrow> uint64_t \<Rightarrow> ElfFileSymbol list \<Rightarrow> JITDebugInfo list" where
  "symbol_infos process_pid jit_entry symfile file_offset symbols =
    map (\<lambda>symbol.
          JitCodeDebugInfo process_pid (timestamp jit_entry) (sym_vaddr symbol) (sym_len symbol)
            (path symfile @ '':'' @ PRIu64 (unat file_offset) @ ''-'' @
               PRIu64 (unat (file_offset + code_symfile_size jit_entry)))
            file_offset)
        (filter (\<lambda>symbol. sym_len symbol \<noteq> 0) symbols)"

text \<open>
  The loop of \<^verbatim>\<open>JITDebugReader::ReadJITCodeDebugInfo\<close> over \<^verbatim>\<open>jit_entries\<close>; each
  \<^verbatim>\<open>continue\<close> goes on with the rest, each \<^verbatim>\<open>return false\<close> ends the function at once.
\<close>

fun ReadJITCodeDebugInfo_loop ::
  "'d Env \<Rightarrow> 'd World \<Rightarrow> JITDebugReader \<Rightarrow> Process \<Rightarrow> CodeEntry list \<Rightarrow> JITDebugInfo list \<Rightarrow>
   bool \<times> JITDebugReader \<times> Process \<times> JITDebugInfo list" where
  "ReadJITCodeDebugInfo_loop env world reader process [] debug_info =
    (True, reader, process, debug_info)"
| "ReadJITCodeDebugInfo_loop env world reader process (jit_entry # rest) debug_info =
    (if code_symfile_size jit_entry > MAX_JIT_SYMFILE_SIZE
     then ReadJITCodeDebugInfo_loop env world reader process rest debug_info
     else
       (case ReadRemoteMem
               (\<lambda>t. read_bytes (world t) (code_symfile_addr jit_entry) (code_symfile_size jit_entry))
               process (code_symfile_addr jit_entry) (code_symfile_size jit_entry) of
          (process, None) \<Rightarrow> ReadJITCodeDebugInfo_loop env world reader process rest debug_info
        | (process, Some data) \<Rightarrow>
            if \<not> IsValidElfFileMagic env data (code_symfile_size jit_entry)
            then ReadJITCodeDebugInfo_loop env world reader process rest debug_info
            else
              (case GetTempSymFile env reader process jit_entry of
                 (reader, None) \<Rightarrow> (False, reader, process, debug_info)
               | (reader, Some slot) \<Rightarrow>
                   (case symfile_at slot reader of
                      None \<Rightarrow> (False, reader, process, debug_info)
                    | Some symfile \<Rightarrow>
                        let file_offset = offset symfile in
                        if \<not> WriteEntry_ok env symfile data (code_symfile_size jit_entry)
                        then (False, reader, process, debug_info)
                        else
                          let reader = symfile_put slot
                                (symfile\<lparr>offset := offset symfile + code_symfile_size jit_entry\<rparr>)
                                reader;
                              debug_info =
                                (case ElfFile_symbols env data (code_symfile_size jit_entry) of
                                   None \<Rightarrow> debug_info
                                 | Some symbols \<Rightarrow>
                                     debug_info @
                                       symbol_infos (pid process) jit_entry symfile file_offset
                                         symbols)
                          in ReadJITCodeDebugInfo_loop env world reader process rest debug_info))))"

text \<open>
  \<^verbatim>\<open>JITDebugReader::ReadJITCodeDebugInfo\<close>. After the loop the two scratch files are
  flushed, which changes nothing the model keeps.
\<close>

definition ReadJITCodeDebugInfo ::
  "'d Env \<Rightarrow> 'd World \<Rightarrow> JITDebugReader \<Rightarrow> Process \<Rightarrow> CodeEntry list \<Rightarrow> JITDebugInfo list \<Rightarrow>
   bool \<times> JITDebugReader \<times> Process \<times> JITDebugInfo list" where
  "ReadJITCodeDebugInfo env world reader process jit_entries debug_info =
    ReadJITCodeDebugInfo_loop env world reader process jit_entries debug_info"


section \<open>Resolving dex entries\<close>

text \<open>
  \<^verbatim>\<open>std::lower_bound(first, last, value, comp)\<close> as the standard library implements it: a
  binary search by halving, on indices into the vector. \<open>cmp\<close> is the comparison
  \<^verbatim>\<open>comp\<close> with the value already applied. The result is the index of the returned
  iterator.
\<close>

function lower_bound_loop :: "'a list \<Rightarrow> ('a \<Rightarrow> bool) \<Rightarrow> nat \<Rightarrow> nat \<Rightarrow> nat" where
  "lower_bound_loop xs cmp first n =
    (if n > 0 then
       let half = n div 2; middle = first + half
       in if cmp (xs ! middle)
          then lower_bound_loop xs cmp (middle + 1) (n - half - 1)
          else lower_bound_loop xs cmp first half
     else first)"
  by pat_completeness auto
termination
  by (relation "measure (\<lambda>(xs, cmp, first, n). n)") auto

declare lower_bound_loop.simps [simp del]

definition lower_bound :: "'a list \<Rightarrow> ('a \<Rightarrow> bool) \<Rightarrow> nat" where
  "lower_bound xs cmp = lower_bound_loop xs cmp 0 (length xs)"

text \<open>
  One round of the loop of \<^verbatim>\<open>JITDebugReader::ReadDexFileDebugInfo\<close>: the record appended
  for \<open>dex_entry\<close>, or \<open>None\<close> where the source says \<^verbatim>\<open>continue\<close>.
\<close>

definition ReadDexFileDebugInfo_entry ::
  "'d Env \<Rightarrow> Process \<Rightarrow> ThreadMmap list \<Rightarrow> CodeEntry \<Rightarrow> JITDebugInfo option" where
  "ReadDexFileDebugInfo_entry env process thread_mmaps dex_entry =
    (let it = lower_bound thread_mmaps (\<lambda>m. start_addr m \<le> code_symfile_addr dex_entry)
     in if it = 0 then None
        else
          let it = thread_mmaps ! (it - 1)
          in if start_addr it + len it < code_symfile_addr dex_entry + code_symfile_size dex_entry
             then None
             else
               let dex_file_offset = code_symfile_addr dex_entry - start_addr it + pgoff it
               in (case ParseExtractedInMemoryPath env (name it) of
                     Some (zip_path, entry_path) \<Rightarrow>
                       Some (DexFileDebugInfo (pid process) (timestamp dex_entry) dex_file_offset
                               (GetUrlInApk env zip_path entry_path) (Some it))
                   | None \<Rightarrow>
                       if \<not> IsRegularFile env (name it) then None
                       else Some (DexFileDebugInfo (pid process) (timestamp dex_entry)
                                    dex_file_offset (name it) None)))"

fun ReadDexFileDebugInfo_loop ::
  "'d Env \<Rightarrow> Process \<Rightarrow> ThreadMmap list \<Rightarrow> CodeEntry list \<Rightarrow> JITDebugInfo list \<Rightarrow>
   JITDebugInfo list" where
  "ReadDexFileDebugInfo_loop env process thread_mmaps [] debug_info = debug_info"
| "ReadDexFileDebugInfo_loop env process thread_mmaps (dex_entry # rest) debug_info =
    (case ReadDexFileDebugInfo_entry env process thread_mmaps dex_entry of
       None \<Rightarrow> ReadDexFileDebugInfo_loop env process thread_mmaps rest debug_info
     | Some info \<Rightarrow> ReadDexFileDebugInfo_loop env process thread_mmaps rest (debug_info @ [info]))"

text \<open>
  \<^verbatim>\<open>JITDebugReader::ReadDexFileDebugInfo\<close>: the memory map is read once; when that fails
  the process is marked died and nothing is appended.
\<close>

definition ReadDexFileDebugInfo ::
  "'d Env \<Rightarrow> 'd World \<Rightarrow> Process \<Rightarrow> CodeEntry list \<Rightarrow> JITDebugInfo list \<Rightarrow>
   Process \<times> JITDebugInfo list" where
  "ReadDexFileDebugInfo env world process dex_entries debug_info =
    (case thread_mmaps_of (world (now process)) of
       None \<Rightarrow> (process\<lparr>died := True\<rparr>, debug_info)
     | Some thread_mmaps \<Rightarrow>
         (process, ReadDexFileDebugInfo_loop env process thread_mmaps dex_entries debug_info))"

section \<open>Reading one descriptor's new entries\<close>

text \<open>
  \<^verbatim>\<open>uint32_t read_entry_limit = (new_descriptor.action_seqlock - old_descriptor->action_seqlock) / 2;\<close>
\<close>

definition read_entry_limit_of :: "Descriptor \<Rightarrow> Descriptor \<Rightarrow> uint32_t" where
  "read_entry_limit_of new_descriptor old_descriptor =
    (action_seqlock new_descriptor - action_seqlock old_descriptor) div 2"

text \<open>\<^verbatim>\<open>old_descriptor\<close> points at one of the two descriptors the process keeps.\<close>

definition old_descriptor_of :: "DescriptorType \<Rightarrow> Process \<Rightarrow> Descriptor" where
  "old_descriptor_of ty process =
    (if ty = kJIT then last_jit_descriptor process else last_dex_descriptor process)"

definition set_old_descriptor :: "DescriptorType \<Rightarrow> Descriptor \<Rightarrow> Process \<Rightarrow> Process" where
  "set_old_descriptor ty d process =
    (if ty = kJIT then process\<lparr>last_jit_descriptor := d\<rparr> else process\<lparr>last_dex_descriptor := d\<rparr>)"

text \<open>
  \<^verbatim>\<open>JITDebugReader::ReadDebugInfo\<close>. The result is the returned bool, the reader (its
  scratch files may have grown), the process and the vector \<^verbatim>\<open>debug_info\<close>.
\<close>

definition ReadDebugInfo ::
  "'d Env \<Rightarrow> host_arch \<Rightarrow> 'd World \<Rightarrow> JITDebugReader \<Rightarrow> Process \<Rightarrow> Descriptor \<Rightarrow>
   JITDebugInfo list \<Rightarrow> bool \<times> JITDebugReader \<times> Process \<times> JITDebugInfo list" where
  "ReadDebugInfo env h world reader process new_descriptor debug_info =
    (let ty = type new_descriptor;
         old_descriptor = old_descriptor_of ty process;
         has_update = (action_seqlock new_descriptor \<noteq> action_seqlock old_descriptor \<and>
                       action_seqlock new_descriptor AND 1 = 0)
     in if \<not> has_update then (True, reader, process, debug_info)
        else
          let read_entry_limit = read_entry_limit_of new_descriptor old_descriptor
          in (case ReadNewCodeEntries h world process new_descriptor
                     (action_timestamp old_descriptor) read_entry_limit [] of
                (False, process, new_entries) \<Rightarrow> (True, reader, process, debug_info)
              | (True, process, new_entries) \<Rightarrow>
                  (case IsDescriptorChanged h world process new_descriptor of
                     (True, process) \<Rightarrow> (True, reader, process, debug_info)
                   | (False, process) \<Rightarrow>
                       if new_entries \<noteq> [] then
                         if ty = kJIT then
                           (case ReadJITCodeDebugInfo env world reader process new_entries
                                   debug_info of
                              (False, reader, process, debug_info) \<Rightarrow>
                                (False, reader, process, debug_info)
                            | (True, reader, process, debug_info) \<Rightarrow>
                                (True, reader, set_old_descriptor ty new_descriptor process,
                                 debug_info))
                         else
                           (case ReadDexFileDebugInfo env world process new_entries debug_info of
                              (process, debug_info) \<Rightarrow>
                                (True, reader, set_old_descriptor ty new_descriptor process,
                                 debug_info))
                       else (True, reader, set_old_descriptor ty new_descriptor process,
                             debug_info))))"

section \<open>Delivering debug info\<close>

text \<open>
  Modelled from the spec: the order of the queue \<^verbatim>\<open>debug_info_q_\<close>, whose comparator is
  declared in the header, not among the sources. The spec has a min-heap keyed by
  timestamp, so \<^verbatim>\<open>top\<close> is an element of least timestamp. The list holds the elements by
  ascending timestamp; which of several elements of one timestamp comes first is not
  fixed by the spec.
\<close>

definition q_push :: "JITDebugInfo \<Rightarrow> JITDebugInfo list \<Rightarrow> JITDebugInfo list" where
  "q_push info q = insort_key info_timestamp info q"

definition q_top :: "JITDebugInfo list \<Rightarrow> JITDebugInfo" where
  "q_top q = hd q"

definition q_pop :: "JITDebugInfo list \<Rightarrow> JITDebugInfo list" where
  "q_pop q = tl q"

text \<open>
  \<^verbatim>\<open>JITDebugReader::AddDebugInfo\<close>. A call of the callback is entered in
  \<open>callback_calls\<close> and its result returned.
\<close>

definition AddDebugInfo ::
  "'d Env \<Rightarrow> JITDebugReader \<Rightarrow> JITDebugInfo list \<Rightarrow> bool \<Rightarrow> bool \<times> JITDebugReader" where
  "AddDebugInfo env reader debug_info sync_kernel_records =
    (if debug_info \<noteq> [] then
       if sync_option reader = kSyncWithRecords
       then (True, reader\<lparr>debug_info_q := foldl (\<lambda>q info. q_push info q) (debug_info_q reader)
                                              debug_info\<rparr>)
       else (debug_info_callback env debug_info sync_kernel_records,
             reader\<lparr>callback_calls := callback_calls reader @ [(debug_info, sync_kernel_records)]\<rparr>)
     else (True, reader))"

text \<open>The inner \<^verbatim>\<open>while\<close> of \<^verbatim>\<open>FlushDebugInfo\<close>: the queue and the batch gathered so far.\<close>

function FlushDebugInfo_loop ::
  "uint64_t \<Rightarrow> JITDebugInfo list \<Rightarrow> JITDebugInfo list \<Rightarrow> JITDebugInfo list \<times> JITDebugInfo list" where
  "FlushDebugInfo_loop ts q debug_info =
    (if q \<noteq> [] \<and> info_timestamp (q_top q) < ts
     then FlushDebugInfo_loop ts (q_pop q) (debug_info @ [q_top q])
     else (q, debug_info))"
  by pat_completeness auto
termination
  by (relation "measure (\<lambda>(ts, q, debug_info). length q)") (auto simp: q_pop_def)

declare FlushDebugInfo_loop.simps [simp del]

text \<open>\<^verbatim>\<open>JITDebugReader::FlushDebugInfo\<close>\<close>

definition FlushDebugInfo ::
  "'d Env \<Rightarrow> JITDebugReader \<Rightarrow> uint64_t \<Rightarrow> bool \<times> JITDebugReader" where
  "FlushDebugInfo env reader ts =
    (if sync_option reader = kSyncWithRecords then
       if debug_info_q reader \<noteq> [] \<and> info_timestamp (q_top (debug_info_q reader)) < ts then
         (case FlushDebugInfo_loop ts (debug_info_q reader) [] of
            (q, debug_info) \<Rightarrow>
              (debug_info_callback env debug_info False,
               reader\<lparr>debug_info_q := q,
                      callback_calls := callback_calls reader @ [(debug_info, False)]\<rparr>))
       else (True, reader)
     else (True, reader))"


section \<open>Notions used to state the properties\<close>

text \<open>
  \<open>walk_reaches world lts t a xs b\<close>: a walk that stands on address \<open>a\<close> when the target
  is at moment \<open>t\<close> passes the nodes \<open>xs\<close>, in this order, and then stands on \<open>b\<close>.
  Each node passed is not null, is read at its own moment, has a register timestamp above
  the cutoff \<open>lts\<close> (otherwise the walk stops there), and its next pointer leads on.
\<close>

fun walk_reaches ::
  "'d World \<Rightarrow> uint64_t \<Rightarrow> nat \<Rightarrow> uint64_t \<Rightarrow> uint64_t list \<Rightarrow> uint64_t \<Rightarrow> bool" where
  "walk_reaches world lts t a [] b = (a = b)"
| "walk_reaches world lts t a (x # xs) b =
    (a = x \<and> x \<noteq> 0 \<and>
     (case read_entry (world t) x of
        None \<Rightarrow> False
      | Some e \<Rightarrow> register_timestamp e > lts \<and> walk_reaches world lts (Suc t) (next_addr e) xs b))"

text \<open>
  The calls that reach the delivery stage, in order: \<^verbatim>\<open>AddDebugInfo\<close> with a batch and a
  flag (from \<^verbatim>\<open>ReadAllProcesses\<close> and \<^verbatim>\<open>ReadProcess\<close>), and \<^verbatim>\<open>FlushDebugInfo\<close> with the
  timestamp of a record (from \<^verbatim>\<open>UpdateRecord\<close>). A call that returns false stops the reader.
\<close>

datatype delivery_call = Add "JITDebugInfo list" bool | Flush uint64_t

fun deliver :: "'d Env \<Rightarrow> JITDebugReader \<Rightarrow> delivery_call list \<Rightarrow> bool \<times> JITDebugReader" where
  "deliver env reader [] = (True, reader)"
| "deliver env reader (Add debug_info sync_kernel_records # calls) =
    (case AddDebugInfo env reader debug_info sync_kernel_records of
       (False, reader) \<Rightarrow> (False, reader)
     | (True, reader) \<Rightarrow> deliver env reader calls)"
| "deliver env reader (Flush ts # calls) =
    (case FlushDebugInfo env reader ts of
       (False, reader) \<Rightarrow> (False, reader)
     | (True, reader) \<Rightarrow> deliver env reader calls)"

text \<open>
  \<open>not_older w calls\<close>: no record is added with a timestamp below a watermark flushed
  before it (\<open>w\<close> is the highest watermark so far).
\<close>

fun not_older :: "uint64_t \<Rightarrow> delivery_call list \<Rightarrow> bool" where
  "not_older w [] = True"
| "not_older w (Add debug_info sync_kernel_records # calls) =
    (list_all (\<lambda>info. w \<le> info_timestamp info) debug_info \<and> not_older w calls)"
| "not_older w (Flush ts # calls) = not_older (max w ts) calls"

text \<open>The timestamps handed to the callback, in the order of delivery.\<close>

definition delivered_timestamps :: "JITDebugReader \<Rightarrow> uint64_t list" where
  "delivered_timestamps reader = map info_timestamp (concat (map fst (callback_calls reader)))"


text \<open>
  The local \<^verbatim>\<open>has_update\<close> of \<^verbatim>\<open>ReadDebugInfo\<close>: the new seqlock differs from the stored
  one and is even.
\<close>

definition has_update :: "Descriptor \<Rightarrow> Descriptor \<Rightarrow> bool" where
  "has_update new_descriptor old_descriptor =
    (action_seqlock new_descriptor \<noteq> action_seqlock old_descriptor \<and>
     action_seqlock new_descriptor AND 1 = 0)"

text \<open>The descriptor layout for a process, and the two remote ranges of a descriptor read.\<close>

definition bitness :: "Process \<Rightarrow> ADDRT" where
  "bitness process = (if is_64bit process then ADDR_uint64_t else ADDR_uint32_t)"

definition descriptors_iov :: "Process \<Rightarrow> (uint64_t \<times> uint64_t) list" where
  "descriptors_iov process =
    (let n = of_nat (sizeof_JITDescriptor (bitness process))
     in [(jit_descriptor_addr process, n), (dex_descriptor_addr process, n)])"

text \<open>
  What holds of a reader in ordered mode between calls, \<open>w\<close> being the highest
  watermark flushed so far: the queue is in timestamp order, what has been delivered is in
  timestamp order, below \<open>w\<close> and not above anything still queued, and every delivery
  had the flag false.
\<close>

definition delivery_inv :: "uint64_t \<Rightarrow> JITDebugReader \<Rightarrow> bool" where
  "delivery_inv w reader =
    (sync_option reader = kSyncWithRecords \<and>
     sorted (map info_timestamp (debug_info_q reader)) \<and>
     sorted (delivered_timestamps reader) \<and>
     list_all (\<lambda>d. d < w \<and> list_all (\<lambda>x. d \<le> info_timestamp x) (debug_info_q reader))
       (delivered_timestamps reader) \<and>
     list_all (\<lambda>c. \<not> snd c) (callback_calls reader))"

section \<open>Concrete targets\<close>

text \<open>
  A 64-bit target with two version-1 JIT entries, registered at 100 and 200, the newer
  one first; its JIT descriptor stands at seqlock 4. The bytes of a symfile are stood for
  by the address they were read from.
\<close>

definition raw_descriptor ::
  "string \<Rightarrow> uint32_t \<Rightarrow> uint32_t \<Rightarrow> uint64_t \<Rightarrow> uint64_t \<Rightarrow> JITDescriptor" where
  "raw_descriptor magic entry_size seq ts first =
    \<lparr>raw_version = 1, raw_action_flag = 0, raw_relevant_entry_addr = 0,
     raw_first_entry_addr = first, raw_magic = magic, raw_flags = 0, raw_sizeof_descriptor = 56,
     raw_sizeof_entry = entry_size, raw_action_seqlock = seq, raw_action_timestamp = ts\<rparr>"

definition entry_200 :: JITCodeEntry where
  "entry_200 = \<lparr>next_addr = 0x1000, prev_addr = 0, symfile_addr = 0x5000, symfile_size = 64,
                 register_timestamp = 200, seqlock = 0\<rparr>"

definition entry_100 :: JITCodeEntry where
  "entry_100 = \<lparr>next_addr = 0, prev_addr = 0x2000, symfile_addr = 0x6000, symfile_size = 64,
                 register_timestamp = 100, seqlock = 0\<rparr>"

definition target_two_entries :: "uint64_t Target" where
  "target_two_entries =
    \<lparr>read_descriptors = Some (raw_descriptor ''Android1'' 40 4 200 0x2000,
                              raw_descriptor ''Android1'' 40 0 0 0),
     read_entry = (\<lambda>a. if a = 0x2000 then Some entry_200
                        else if a = 0x1000 then Some entry_100 else None),
     read_bytes = (\<lambda>a n. if a = 0x5000 \<or> a = 0x6000 then Some a else None),
     thread_mmaps_of = Some []\<rparr>"

text \<open>The same target when its JIT seqlock has moved on to 6.\<close>

definition target_moved_on :: "uint64_t Target" where
  "target_moved_on =
    target_two_entries\<lparr>read_descriptors :=
      Some (raw_descriptor ''Android1'' 40 6 300 0x3000, raw_descriptor ''Android1'' 40 0 0 0)\<rparr>"

text \<open>A world that stays as it is, and one whose seqlock moves on after the second read.\<close>

definition world_stable :: "uint64_t World" where
  "world_stable = (\<lambda>t. target_two_entries)"

definition world_racing :: "uint64_t World" where
  "world_racing = (\<lambda>t. if t < 2 then target_two_entries else target_moved_on)"

definition env0 :: "uint64_t Env" where
  "env0 =
    \<lparr>IsValidElfFileMagic = (\<lambda>data n. True),
     ElfFile_symbols =
       (\<lambda>data n. Some [\<lparr>sym_vaddr = data, sym_len = 16, sym_name = ''m''\<rparr>,
                        \<lparr>sym_vaddr = data, sym_len = 0, sym_name = ''label''\<rparr>]),
     TempSymFile_Create = (\<lambda>p drop. Some \<lparr>path = p, offset = 0\<rparr>),
     WriteEntry_ok = (\<lambda>f data n. True),
     ParseExtractedInMemoryPath = (\<lambda>s. None),
     GetUrlInApk = (\<lambda>zip_path entry_path. zip_path @ ''!/'' @ entry_path),
     IsRegularFile = (\<lambda>s. True),
     debug_info_callback = (\<lambda>batch sync. True),
     kJITAppCacheFile = ''jit_app_cache'',
     kJITZygoteCacheFile = ''jit_zygote_cache''\<rparr>"

definition reader0 :: JITDebugReader where
  "reader0 =
    \<lparr>symfile_prefix = ''/tmp/jit'', symfile_option = kKeepSymFiles, sync_option = kNoSync,
     app_symfile = None, zygote_symfile = None, debug_info_q = [], callback_calls = []\<rparr>"

definition process_fresh :: Process where
  "process_fresh =
    \<lparr>pid = 42, initialized = True, died = False, is_64bit = True, jit_descriptor_addr = 0x100,
     dex_descriptor_addr = 0x200, last_jit_descriptor = Descriptor_init,
     last_dex_descriptor = Descriptor_init\<lparr>type := kDEX\<rparr>,
     jit_zygote_cache_ranges = [], vm_readv_calls = []\<rparr>"

definition jit_descriptor4 :: Descriptor where
  "jit_descriptor4 =
    \<lparr>type = kJIT, version = 1, action_seqlock = 4, action_timestamp = 200,
     first_entry_addr = 0x2000\<rparr>"

text \<open>A descriptor of a 32-bit target whose \<^verbatim>\<open>sizeof_entry\<close> is 7.\<close>

definition descriptor_wrong_sizeof_entry :: JITDescriptor where
  "descriptor_wrong_sizeof_entry =
    \<lparr>raw_version = 1, raw_action_flag = 0, raw_relevant_entry_addr = 0, raw_first_entry_addr = 0,
     raw_magic = ''Android1'', raw_flags = 0, raw_sizeof_descriptor = 48, raw_sizeof_entry = 7,
     raw_action_seqlock = 2, raw_action_timestamp = 0\<rparr>"

text \<open>
  A list that never ends: every address holds an entry whose next pointer is 8 further on
  and whose back pointer is 8 behind.
\<close>

definition target_endless :: "uint64_t Target" where
  "target_endless =
    \<lparr>read_descriptors = None,
     read_entry = (\<lambda>a. Some \<lparr>next_addr = a + 8, prev_addr = a - 8, symfile_addr = 1,
                             symfile_size = 1, register_timestamp = 100, seqlock = 0\<rparr>),
     read_bytes = (\<lambda>a n. None),
     thread_mmaps_of = None\<rparr>"

definition jit_descriptor_endless :: Descriptor where
  "jit_descriptor_endless =
    \<lparr>type = kJIT, version = 1, action_seqlock = 4, action_timestamp = 100, first_entry_addr = 8\<rparr>"

text \<open>
  A version-2 list of two entries, the second with an even seqlock and no symfile (address
  and size 0), and a version-2 list of one entry whose seqlock is odd.
\<close>

definition entry_v2_200 :: JITCodeEntry where
  "entry_v2_200 =
    \<lparr>next_addr = 0x1000, prev_addr = 0, symfile_addr = 0x5000, symfile_size = 64,
     register_timestamp = 200, seqlock = 2\<rparr>"

definition entry_v2_no_symfile :: JITCodeEntry where
  "entry_v2_no_symfile =
    \<lparr>next_addr = 0, prev_addr = 0x2000, symfile_addr = 0, symfile_size = 0,
     register_timestamp = 100, seqlock = 4\<rparr>"

definition target_v2_pair :: "uint64_t Target" where
  "target_v2_pair =
    \<lparr>read_descriptors = Some (raw_descriptor ''Android2'' 48 4 200 0x2000,
                              raw_descriptor ''Android2'' 48 0 0 0),
     read_entry = (\<lambda>a. if a = 0x2000 then Some entry_v2_200
                        else if a = 0x1000 then Some entry_v2_no_symfile else None),
     read_bytes = (\<lambda>a n. if a = 0x5000 then Some a else None),
     thread_mmaps_of = Some []\<rparr>"

definition jit_descriptor_v2_pair :: Descriptor where
  "jit_descriptor_v2_pair =
    \<lparr>type = kJIT, version = 2, action_seqlock = 4, action_timestamp = 200,
     first_entry_addr = 0x2000\<rparr>"

definition entry_v2_odd :: JITCodeEntry where
  "entry_v2_odd =
    \<lparr>next_addr = 0, prev_addr = 0, symfile_addr = 0x5000, symfile_size = 64,
     register_timestamp = 100, seqlock = 3\<rparr>"

definition target_v2 :: "JITCodeEntry \<Rightarrow> uint64_t Target" where
  "target_v2 e =
    \<lparr>read_descriptors = Some (raw_descriptor ''Android2'' 48 2 100 0x2000,
                              raw_descriptor ''Android2'' 48 0 0 0),
     read_entry = (\<lambda>a. if a = 0x2000 then Some e else None),
     read_bytes = (\<lambda>a n. Some a),
     thread_mmaps_of = Some []\<rparr>"

definition jit_descriptor_v2 :: Descriptor where
  "jit_descriptor_v2 =
    \<lparr>type = kJIT, version = 2, action_seqlock = 2, action_timestamp = 100,
     first_entry_addr = 0x2000\<rparr>"

text \<open>
  Lists with a cycle: one entry whose next pointer leads back to itself, and two entries
  that point at each other.
\<close>

definition entry_self_loop :: JITCodeEntry where
  "entry_self_loop =
    \<lparr>next_addr = 0x2000, prev_addr = 0, symfile_addr = 0x5000, symfile_size = 64,
     register_timestamp = 100, seqlock = 0\<rparr>"

definition target_self_loop :: "uint64_t Target" where
  "target_self_loop =
    \<lparr>read_descriptors = Some (raw_descriptor ''Android1'' 40 2 100 0x2000,
                              raw_descriptor ''Android1'' 40 0 0 0),
     read_entry = (\<lambda>a. if a = 0x2000 then Some entry_self_loop else None),
     read_bytes = (\<lambda>a n. Some a),
     thread_mmaps_of = Some []\<rparr>"

definition jit_descriptor2 :: Descriptor where
  "jit_descriptor2 =
    \<lparr>type = kJIT, version = 1, action_seqlock = 2, action_timestamp = 100,
     first_entry_addr = 0x2000\<rparr>"

definition target_ring :: "uint64_t Target" where
  "target_ring =
    \<lparr>read_descriptors = Some (raw_descriptor ''Android1'' 40 6 200 0x2000,
                              raw_descriptor ''Android1'' 40 0 0 0),
     read_entry = (\<lambda>a. if a = 0x2000 then Some (entry_200\<lparr>next_addr := 0x1000\<rparr>)
                        else if a = 0x1000 then Some (entry_100\<lparr>next_addr := 0x2000\<rparr>)
                        else None),
     read_bytes = (\<lambda>a n. Some a),
     thread_mmaps_of = Some []\<rparr>"

definition jit_descriptor6 :: Descriptor where
  "jit_descriptor6 =
    \<lparr>type = kJIT, version = 1, action_seqlock = 6, action_timestamp = 200,
     first_entry_addr = 0x2000\<rparr>"


text \<open>
  JIT entries at the symfile cap: one of exactly 1 MiB and one of 1 MiB + 1 byte. The two
  entries gathered from \<open>target_two_entries\<close>, and that target when the symfile at
  0x5000 can no longer be read.
\<close>

definition entry_exactly_1MiB :: CodeEntry where
  "entry_exactly_1MiB =
    \<lparr>addr = 0x2000, code_symfile_addr = 0x5000, code_symfile_size = 1048576, timestamp = 200\<rparr>"

definition entry_1MiB_plus_1 :: CodeEntry where
  "entry_1MiB_plus_1 =
    \<lparr>addr = 0x1000, code_symfile_addr = 0x6000, code_symfile_size = 1048577, timestamp = 100\<rparr>"

definition target_symfiles_gone :: "uint64_t Target" where
  "target_symfiles_gone =
    target_two_entries\<lparr>read_bytes := (\<lambda>a n. if a = 0x6000 then Some a else None)\<rparr>"

definition new_entries_two :: "CodeEntry list" where
  "new_entries_two =
    [\<lparr>addr = 0x2000, code_symfile_addr = 0x5000, code_symfile_size = 64, timestamp = 200\<rparr>,
     \<lparr>addr = 0x1000, code_symfile_addr = 0x6000, code_symfile_size = 64, timestamp = 100\<rparr>]"

text \<open>
  Debug info with a given timestamp, a reader in ordered mode, and three runs of the
  delivery stage: one where every record is added before a watermark passes its
  timestamp, one where a record of timestamp 3 is added after watermark 10 was flushed,
  and one with an empty batch and a watermark below everything queued.
\<close>

definition info_at :: "uint64_t \<Rightarrow> JITDebugInfo" where
  "info_at ts = DexFileDebugInfo 42 ts 0 ''/data/app/base.vdex'' None"

definition reader_ordered :: JITDebugReader where
  "reader_ordered = reader0\<lparr>sync_option := kSyncWithRecords\<rparr>"

definition calls_in_time :: "delivery_call list" where
  "calls_in_time =
    [Add [info_at 5, info_at 3] True, Flush 4, Add [info_at 7] False, Flush 10]"

definition calls_late_record :: "delivery_call list" where
  "calls_late_record = [Add [info_at 5] True, Flush 10, Add [info_at 3] False, Flush 10]"

definition calls_with_empty :: "delivery_call list" where
  "calls_with_empty = [Add [] True, Flush 10, Add [info_at 5] True, Flush 3, Flush 10]"

text \<open>
  A memory map of one file mapping, [0x7000, 0x8000), and a dex entry that starts inside
  it and whose size makes \<^verbatim>\<open>symfile_addr + symfile_size\<close> wrap around to 0x6800.
\<close>

definition mmap_vdex :: ThreadMmap where
  "mmap_vdex =
    \<lparr>start_addr = 0x7000, len = 0x1000, pgoff = 0, prot = 1, name = ''/data/app/base.vdex''\<rparr>"

definition dex_entry_wrapping :: CodeEntry where
  "dex_entry_wrapping =
    \<lparr>addr = 0x2000, code_symfile_addr = 0x7800, code_symfile_size = 0xFFFFFFFFFFFFF000,
     timestamp = 100\<rparr>"

section \<open>Evaluating the model\<close>

text \<open>The equations that unfold the model and the concrete targets on a given input.\<close>

lemmas model_defs = ReadDebugInfo_def ReadNewCodeEntries_def ReadNewCodeEntriesImpl_def
  ReadNewCodeEntriesImpl_loop.simps ReadRemoteMem_def now_def IsDescriptorChanged_def
  ReadDescriptors_def ReadDescriptorsImpl_def ParseDescriptor_def JITDescriptor_Valid_def
  strncmp8_is_0_def AndroidVersion_def sizeof_JITCodeEntry32_def sizeof_JITCodeEntry32V2_def
  sizeof_JITCodeEntry64_def sizeof_JITCodeEntry64V2_def JITCodeEntry_Valid_def
  JITCodeEntryV2_Valid_def read_entry_limit_of_def old_descriptor_of_def set_old_descriptor_def
  ReadJITCodeDebugInfo_def GetTempSymFile_def symbol_infos_def MAX_JIT_SYMFILE_SIZE_def
  kMegabyte_def PRIu64.simps Descriptor_init_def
  ReadDexFileDebugInfo_def ReadDexFileDebugInfo_entry_def lower_bound_def lower_bound_loop.simps
  Let_def

lemmas input_defs = raw_descriptor_def entry_200_def entry_100_def target_two_entries_def
  world_stable_def env0_def reader0_def process_fresh_def

section \<open>Validation of a raw descriptor\<close>

text \<open>
  Whatever \<^verbatim>\<open>sizeof_entry\<close> holds, \<^verbatim>\<open>Valid\<close> answers the same: the conditional at its end
  yields a structure size, never 0.
\<close>

lemma Valid_ignores_sizeof_entry:
  "JITDescriptor_Valid h a (d\<lparr>raw_sizeof_entry := n\<rparr>) = JITDescriptor_Valid h a d"
  by (simp add: JITDescriptor_Valid_def AndroidVersion_def sizeof_JITCodeEntry32_def
      sizeof_JITCodeEntry32V2_def sizeof_JITCodeEntry64_def sizeof_JITCodeEntry64V2_def)

text \<open>
  Claim C2: a raw descriptor is rejected unless its \<^verbatim>\<open>sizeof_entry\<close> is the code-entry size
  of its version and the target's bitness. The code does not do this. On a host that is
  not x86, the descriptor of a 32-bit target with version 1, magic "Android1",
  \<^verbatim>\<open>sizeof_descriptor\<close> 48 and \<^verbatim>\<open>sizeof_entry\<close> 7 (the version-1 entry has 32 bytes) passes
  \<^verbatim>\<open>Valid\<close>, and \<^verbatim>\<open>ParseDescriptor\<close> returns its snapshot.
\<close>

theorem Valid_accepts_wrong_sizeof_entry:
  "JITDescriptor_Valid Host_other ADDR_uint32_t descriptor_wrong_sizeof_entry \<and>
   unat (raw_sizeof_entry descriptor_wrong_sizeof_entry) = 7 \<and>
   expected_sizeof_entry Host_other ADDR_uint32_t descriptor_wrong_sizeof_entry = 32 \<and>
   ParseDescriptor Host_other ADDR_uint32_t descriptor_wrong_sizeof_entry Descriptor_init =
     Some \<lparr>type = kJIT, version = 1, action_seqlock = 2, action_timestamp = 0,
            first_entry_addr = 0\<rparr>"
  by (simp add: JITDescriptor_Valid_def descriptor_wrong_sizeof_entry_def strncmp8_is_0_def
      AndroidVersion_def sizeof_JITCodeEntry32_def sizeof_JITCodeEntry32V2_def
      expected_sizeof_entry_def ParseDescriptor_def Descriptor_init_def)

theorem Valid_accepts_wrong_sizeof_entry_witness:
  "JITDescriptor_Valid Host_other ADDR_uint32_t descriptor_wrong_sizeof_entry \<and>
   unat (raw_sizeof_entry descriptor_wrong_sizeof_entry) \<noteq>
     expected_sizeof_entry Host_other ADDR_uint32_t descriptor_wrong_sizeof_entry"
  using Valid_accepts_wrong_sizeof_entry by simp

section \<open>The walk reads a bounded number of entries\<close>

lemma ReadRemoteMem_Some:
  "tr (now process) = Some x \<Longrightarrow>
   ReadRemoteMem tr process a sz =
     (process\<lparr>vm_readv_calls := vm_readv_calls process @ [[(a, sz)]]\<rparr>, Some x)"
  by (simp add: ReadRemoteMem_def Let_def)

lemma ReadRemoteMem_None:
  "tr (now process) = None \<Longrightarrow>
   ReadRemoteMem tr process a sz =
     (process\<lparr>vm_readv_calls := vm_readv_calls process @ [[(a, sz)]], died := True\<rparr>, None)"
  by (simp add: ReadRemoteMem_def Let_def)

lemma ReadRemoteMem_frame:
  assumes "ReadRemoteMem tr process a sz = (process', r)"
  shows "r = tr (now process) \<and>
   (\<exists>d. process' = process\<lparr>vm_readv_calls := vm_readv_calls process @ [[(a, sz)]], died := d\<rparr>)"
proof (cases "tr (now process)")
  case None
  from assms ReadRemoteMem_None[of tr process a sz] show ?thesis
    using None by auto
next
  case (Some x)
  from assms ReadRemoteMem_Some[of tr process x a sz] Some
  have "r = Some x" and "process' = process\<lparr>vm_readv_calls := vm_readv_calls process @ [[(a, sz)]],
      died := died process\<rparr>" by auto
  with Some show ?thesis by metis
qed

lemma loop_frame:
  "ReadNewCodeEntriesImpl_loop V sz world lts limit process i cur prev S acc = (ok, process', es) \<Longrightarrow>
   \<exists>reads d. process' = process\<lparr>vm_readv_calls := vm_readv_calls process @ reads, died := d\<rparr> \<and>
             length reads \<le> unat limit - i"
proof (induction V sz world lts limit process i cur prev S acc rule: ReadNewCodeEntriesImpl_loop.induct)
  case (1 V sz world lts limit process i cur prev S acc)
  note unfold = ReadNewCodeEntriesImpl_loop.simps[of V sz world lts limit process i cur prev S acc]
  have triv: "process = process\<lparr>vm_readv_calls := vm_readv_calls process @ [], died := died process\<rparr>"
    by simp
  show ?case
  proof (cases "i < unat limit \<and> cur \<noteq> 0 \<and> cur \<notin> S")
    case False
    with "1.prems" have "process' = process"
      by (auto simp: unfold split: if_splits)
    with triv show ?thesis by (metis list.size(3) le0)
  next
    case c: True
    obtain p1 r where rd: "ReadRemoteMem (\<lambda>t. read_entry (world t) cur) process cur (of_nat sz) = (p1, r)"
      by (cases "ReadRemoteMem (\<lambda>t. read_entry (world t) cur) process cur (of_nat sz)")
    from ReadRemoteMem_frame[OF rd]
    obtain d1 where p1: "p1 = process\<lparr>vm_readv_calls := vm_readv_calls process @ [[(cur, of_nat sz)]],
                      died := d1\<rparr>" by blast
    have one: "\<exists>reads d. p1 = process\<lparr>vm_readv_calls := vm_readv_calls process @ reads, died := d\<rparr> \<and>
             length reads \<le> unat limit - i"
      using p1 c by (intro exI[of _ "[[(cur, of_nat sz)]]"] exI[of _ d1]) auto
    show ?thesis
    proof (cases r)
      case None
      with "1.prems" c rd have "process' = p1" by (auto simp: unfold)
      with one show ?thesis by simp
    next
      case (Some entry)
      show ?thesis
      proof (cases "prev_addr entry \<noteq> prev \<or> \<not> V entry \<or> register_timestamp entry \<le> lts")
        case True
        with "1.prems" c rd Some have "process' = p1" by (auto simp: unfold split: if_splits)
        with one show ?thesis by simp
      next
        case False
        with "1.prems" c rd Some have
          "ReadNewCodeEntriesImpl_loop V sz world lts limit p1 (i + 1) (next_addr entry) cur (insert cur S)
             (if symfile_size entry > 0 then acc @ [\<lparr>addr = cur, code_symfile_addr = symfile_addr entry,
                          code_symfile_size = symfile_size entry, timestamp = register_timestamp entry\<rparr>] else acc)
           = (ok, process', es)"
          by (simp add: unfold)
        from "1.IH"[OF _ _ rd[symmetric] _ _ _ this] c Some False
        obtain reads d where r: "process' = p1\<lparr>vm_readv_calls := vm_readv_calls p1 @ reads, died := d\<rparr>"
          and l: "length reads \<le> unat limit - (i + 1)" by auto
        have "process' = process\<lparr>vm_readv_calls := vm_readv_calls process @ ([[(cur, of_nat sz)]] @ reads), died := d\<rparr>"
          using r p1 by simp
        moreover have "length ([[(cur, of_nat sz :: uint64_t)]] @ reads) \<le> unat limit - i"
          using l c by (simp, arith)
        ultimately show ?thesis by blast
      qed
    qed
  qed
qed

lemma ReadNewCodeEntries_frame:
  assumes "ReadNewCodeEntries h world process descriptor lts limit acc = (ok, process', es)"
  shows "\<exists>reads d. process' = process\<lparr>vm_readv_calls := vm_readv_calls process @ reads, died := d\<rparr> \<and>
             length reads \<le> unat limit"
proof -
  have triv: "process = process\<lparr>vm_readv_calls := vm_readv_calls process @ [], died := died process\<rparr>"
    by simp
  consider (w) V sz where "ReadNewCodeEntriesImpl V sz world process descriptor lts limit acc = (ok, process', es)"
    | (f) "process' = process"
    using assms by (auto simp: ReadNewCodeEntries_def split: if_splits)
  then show ?thesis
  proof cases
    case w
    from loop_frame[OF w[unfolded ReadNewCodeEntriesImpl_def]] show ?thesis by simp
  next
    case f
    with triv show ?thesis by (metis list.size(3) le0)
  qed
qed

text \<open>
  Claim C3: a walk of the code-entry list follows at most
  (new.action_seqlock - old.action_seqlock) / 2 hops, the difference taken in unsigned
  32-bit arithmetic. Every hop is one read of an entry: the calls issued on the process
  after the walk are those before it followed by at most that many. The walk is a total
  function, so it has ended by then also when no next pointer is ever null.
\<close>

theorem walk_reads_bounded:
  assumes "ReadNewCodeEntries h world process new_descriptor (action_timestamp old_descriptor)
             (read_entry_limit_of new_descriptor old_descriptor) [] = (ok, process', new_entries)"
  shows "\<exists>reads. vm_readv_calls process' = vm_readv_calls process @ reads \<and>
           length reads \<le> unat (action_seqlock new_descriptor - action_seqlock old_descriptor) div 2"
proof -
  from ReadNewCodeEntries_frame[OF assms]
  obtain reads d where "process' = process\<lparr>vm_readv_calls := vm_readv_calls process @ reads, died := d\<rparr>"
    and "length reads \<le> unat (read_entry_limit_of new_descriptor old_descriptor)" by blast
  moreover have "unat (read_entry_limit_of new_descriptor old_descriptor) =
     unat (action_seqlock new_descriptor - action_seqlock old_descriptor) div 2"
    by (simp add: read_entry_limit_of_def unat_div)
  ultimately show ?thesis by auto
qed

theorem walk_reads_bounded_witness:
  "ReadNewCodeEntries Host_other (\<lambda>t. target_endless) process_fresh jit_descriptor_endless
     (action_timestamp Descriptor_init)
     (read_entry_limit_of jit_descriptor_endless Descriptor_init) [] =
     (True, process_fresh\<lparr>vm_readv_calls := [[(8, 40)], [(16, 40)]]\<rparr>,
      [\<lparr>addr = 8, code_symfile_addr = 1, code_symfile_size = 1, timestamp = 100\<rparr>,
       \<lparr>addr = 16, code_symfile_addr = 1, code_symfile_size = 1, timestamp = 100\<rparr>]) \<and>
   (\<exists>reads. [[(8, 40)], [(16, 40)]] = [] @ reads \<and> length reads \<le> unat (4 - 0 :: uint32_t) div 2)"
proof -
  have walk: "ReadNewCodeEntries Host_other (\<lambda>t. target_endless) process_fresh
     jit_descriptor_endless (action_timestamp Descriptor_init)
     (read_entry_limit_of jit_descriptor_endless Descriptor_init) [] =
     (True, process_fresh\<lparr>vm_readv_calls := [[(8, 40)], [(16, 40)]]\<rparr>,
      [\<lparr>addr = 8, code_symfile_addr = 1, code_symfile_size = 1, timestamp = 100\<rparr>,
       \<lparr>addr = 16, code_symfile_addr = 1, code_symfile_size = 1, timestamp = 100\<rparr>])"
    by (simp add: model_defs input_defs target_endless_def jit_descriptor_endless_def)
  from walk_reads_bounded[OF walk] walk show ?thesis
    by (simp add: process_fresh_def jit_descriptor_endless_def Descriptor_init_def)
qed

section \<open>Where a walk is rejected\<close>

lemma walk_reaches_nonzero: "walk_reaches world lts t a xs b \<Longrightarrow> 0 \<notin> set xs"
  by (induction xs arbitrary: t a) (auto split: option.splits)

lemma loop_stop:
  "\<not> (i < unat limit \<and> cur \<noteq> 0) \<Longrightarrow>
   ReadNewCodeEntriesImpl_loop V sz world lts limit process i cur prev S acc = (True, process, acc)"
  by (subst ReadNewCodeEntriesImpl_loop.simps) auto

lemma loop_cycle:
  "i < unat limit \<Longrightarrow> cur \<noteq> 0 \<Longrightarrow> cur \<in> S \<Longrightarrow>
   ReadNewCodeEntriesImpl_loop V sz world lts limit process i cur prev S acc = (False, process, acc)"
  by (subst ReadNewCodeEntriesImpl_loop.simps) auto

lemma loop_short_read:
  "i < unat limit \<Longrightarrow> cur \<noteq> 0 \<Longrightarrow> cur \<notin> S \<Longrightarrow> read_entry (world (now process)) cur = None \<Longrightarrow>
   ReadNewCodeEntriesImpl_loop V sz world lts limit process i cur prev S acc =
     (False, process\<lparr>vm_readv_calls := vm_readv_calls process @ [[(cur, of_nat sz)]], died := True\<rparr>, acc)"
  by (subst ReadNewCodeEntriesImpl_loop.simps) (simp add: ReadRemoteMem_None)

lemma loop_broken:
  "i < unat limit \<Longrightarrow> cur \<noteq> 0 \<Longrightarrow> cur \<notin> S \<Longrightarrow> read_entry (world (now process)) cur = Some e \<Longrightarrow>
   prev_addr e \<noteq> prev \<or> \<not> V e \<Longrightarrow>
   ReadNewCodeEntriesImpl_loop V sz world lts limit process i cur prev S acc =
     (False, process\<lparr>vm_readv_calls := vm_readv_calls process @ [[(cur, of_nat sz)]]\<rparr>, acc)"
  by (subst ReadNewCodeEntriesImpl_loop.simps) (auto simp add: ReadRemoteMem_Some)

lemma loop_cutoff:
  "i < unat limit \<Longrightarrow> cur \<noteq> 0 \<Longrightarrow> cur \<notin> S \<Longrightarrow> read_entry (world (now process)) cur = Some e \<Longrightarrow>
   prev_addr e = prev \<Longrightarrow> V e \<Longrightarrow> register_timestamp e \<le> lts \<Longrightarrow>
   ReadNewCodeEntriesImpl_loop V sz world lts limit process i cur prev S acc =
     (True, process\<lparr>vm_readv_calls := vm_readv_calls process @ [[(cur, of_nat sz)]]\<rparr>, acc)"
  by (subst ReadNewCodeEntriesImpl_loop.simps) (auto simp add: ReadRemoteMem_Some)

lemma loop_next:
  "i < unat limit \<Longrightarrow> cur \<noteq> 0 \<Longrightarrow> cur \<notin> S \<Longrightarrow> read_entry (world (now process)) cur = Some e \<Longrightarrow>
   prev_addr e = prev \<Longrightarrow> V e \<Longrightarrow> lts < register_timestamp e \<Longrightarrow>
   ReadNewCodeEntriesImpl_loop V sz world lts limit process i cur prev S acc =
   ReadNewCodeEntriesImpl_loop V sz world lts limit
     (process\<lparr>vm_readv_calls := vm_readv_calls process @ [[(cur, of_nat sz)]]\<rparr>)
     (Suc i) (next_addr e) cur (insert cur S)
     (if symfile_size e > 0
      then acc @ [\<lparr>addr = cur, code_symfile_addr = symfile_addr e,
                   code_symfile_size = symfile_size e, timestamp = register_timestamp e\<rparr>]
      else acc)"
  by (subst ReadNewCodeEntriesImpl_loop.simps) (auto simp add: ReadRemoteMem_Some)

lemma walk_along:
  "walk_reaches world lts (now process) cur xs b \<Longrightarrow> i + length xs \<le> unat limit \<Longrightarrow>
   \<not> fst (ReadNewCodeEntriesImpl_loop V sz world lts limit process i cur prev S acc) \<or>
   (\<exists>process2 prev2 acc2.
      ReadNewCodeEntriesImpl_loop V sz world lts limit process i cur prev S acc =
      ReadNewCodeEntriesImpl_loop V sz world lts limit process2 (i + length xs) b prev2
        (S \<union> set xs) acc2 \<and>
      now process2 = now process + length xs)"
proof (induction xs arbitrary: process i cur prev S acc)
  case Nil
  then show ?case by auto
next
  case (Cons x xs)
  from Cons.prems obtain e where
    cur: "cur = x" "x \<noteq> 0" and rd: "read_entry (world (now process)) x = Some e"
    and ts: "lts < register_timestamp e"
    and rest: "walk_reaches world lts (Suc (now process)) (next_addr e) xs b"
    by (auto split: option.splits)
  from Cons.prems have i: "i < unat limit" by simp
  let ?loop = "ReadNewCodeEntriesImpl_loop V sz world lts limit"
  have x0: "cur \<noteq> 0" using cur by simp
  have rd': "read_entry (world (now process)) cur = Some e" using cur rd by simp
  show ?case
  proof (cases "cur \<in> S \<or> prev_addr e \<noteq> prev \<or> \<not> V e")
    case True
    have "\<not> fst (?loop process i cur prev S acc)"
    proof (cases "cur \<in> S")
      case True
      show ?thesis by (simp add: loop_cycle[OF i x0 True])
    next
      case nS: False
      with True have "prev_addr e \<noteq> prev \<or> \<not> V e" by simp
      then show ?thesis by (simp add: loop_broken[where world=world and process=process, OF i x0 nS rd'])
    qed
    then show ?thesis by simp
  next
    case False
    let ?p1 = "process\<lparr>vm_readv_calls := vm_readv_calls process @ [[(x, of_nat sz)]]\<rparr>"
    let ?acc1 = "if symfile_size e > 0
      then acc @ [\<lparr>addr = x, code_symfile_addr = symfile_addr e,
                   code_symfile_size = symfile_size e, timestamp = register_timestamp e\<rparr>]
      else acc"
    have step: "?loop process i cur prev S acc = ?loop ?p1 (Suc i) (next_addr e) x (insert x S) ?acc1"
      using loop_next[where world=world and process=process and S=S and prev=prev and V=V, OF i x0 _ rd' _ _ ts, of sz acc] cur False by simp
    have n1: "now ?p1 = Suc (now process)" by (simp add: now_def)
    from rest n1 have r1: "walk_reaches world lts (now ?p1) (next_addr e) xs b" by simp
    from Cons.prems have l1: "Suc i + length xs \<le> unat limit" by simp
    from Cons.IH[OF r1 l1, where prev=x and S="insert x S" and acc="?acc1"]
    show ?thesis
    proof
      assume "\<not> fst (?loop ?p1 (Suc i) (next_addr e) x (insert x S) ?acc1)"
      with step show ?thesis by simp
    next
      assume "\<exists>process2 prev2 acc2.
        ?loop ?p1 (Suc i) (next_addr e) x (insert x S) ?acc1 =
        ?loop process2 (Suc i + length xs) b prev2 (insert x S \<union> set xs) acc2 \<and>
        now process2 = now ?p1 + length xs"
      then obtain process2 prev2 acc2 where
        "?loop ?p1 (Suc i) (next_addr e) x (insert x S) ?acc1 =
         ?loop process2 (Suc i + length xs) b prev2 (insert x S \<union> set xs) acc2"
        and "now process2 = now ?p1 + length xs" by blast
      with step n1 have "?loop process i cur prev S acc =
         ?loop process2 (i + length (x # xs)) b prev2 (S \<union> set (x # xs)) acc2 \<and>
         now process2 = now process + length (x # xs)" by simp
      then show ?thesis by blast
    qed
  qed
qed

lemma walk_along0:
  assumes "walk_reaches world lts (now process) cur xs b" "length xs \<le> unat limit"
  shows "\<not> fst (ReadNewCodeEntriesImpl_loop V sz world lts limit process 0 cur 0 {} acc) \<or>
   (\<exists>process2 prev2 acc2.
      ReadNewCodeEntriesImpl_loop V sz world lts limit process 0 cur 0 {} acc =
      ReadNewCodeEntriesImpl_loop V sz world lts limit process2 (length xs) b prev2 (set xs) acc2 \<and>
      now process2 = now process + length xs)"
  using walk_along[OF assms(1), of 0 limit V sz 0 "{}" acc] assms(2) by simp

lemma walk_cycle_rejected:
  assumes "walk_reaches world lts (now process) cur xs b" "b \<in> set xs" "length xs < unat limit"
  shows "\<not> fst (ReadNewCodeEntriesImpl_loop V sz world lts limit process 0 cur 0 {} acc)"
proof -
  from assms(1) assms(2) have b0: "b \<noteq> 0" using walk_reaches_nonzero by metis
  from assms(3) have le: "length xs \<le> unat limit" by simp
  from walk_along0[OF assms(1) le, of V sz acc]
  show ?thesis
  proof
    assume "\<exists>process2 prev2 acc2.
      ReadNewCodeEntriesImpl_loop V sz world lts limit process 0 cur 0 {} acc =
      ReadNewCodeEntriesImpl_loop V sz world lts limit process2 (length xs) b prev2 (set xs) acc2 \<and>
      now process2 = now process + length xs"
    then obtain process2 prev2 acc2 where eq:
      "ReadNewCodeEntriesImpl_loop V sz world lts limit process 0 cur 0 {} acc =
       ReadNewCodeEntriesImpl_loop V sz world lts limit process2 (length xs) b prev2 (set xs) acc2"
      by blast
    show ?thesis using eq by (simp add: loop_cycle[OF assms(3) b0 assms(2)])
  qed simp
qed

lemma walk_invalid_rejected:
  assumes "walk_reaches world lts (now process) cur xs b" "length xs < unat limit" "b \<noteq> 0"
    and "read_entry (world (now process + length xs)) b = Some e" "\<not> V e"
  shows "\<not> fst (ReadNewCodeEntriesImpl_loop V sz world lts limit process 0 cur 0 {} acc)"
proof -
  from assms(2) have le: "length xs \<le> unat limit" by simp
  from walk_along0[OF assms(1) le, of V sz acc]
  show ?thesis
  proof
    assume "\<exists>process2 prev2 acc2.
      ReadNewCodeEntriesImpl_loop V sz world lts limit process 0 cur 0 {} acc =
      ReadNewCodeEntriesImpl_loop V sz world lts limit process2 (length xs) b prev2 (set xs) acc2 \<and>
      now process2 = now process + length xs"
    then obtain process2 prev2 acc2 where eq:
      "ReadNewCodeEntriesImpl_loop V sz world lts limit process 0 cur 0 {} acc =
       ReadNewCodeEntriesImpl_loop V sz world lts limit process2 (length xs) b prev2 (set xs) acc2"
      and n2: "now process2 = now process + length xs" by blast
    have rd: "read_entry (world (now process2)) b = Some e" using assms(4) n2 by simp
    have "\<not> fst (ReadNewCodeEntriesImpl_loop V sz world lts limit process2 (length xs) b prev2
        (set xs) acc2)"
    proof (cases "b \<in> set xs")
      case True
      show ?thesis by (simp add: loop_cycle[OF assms(2) assms(3) True])
    next
      case False
      show ?thesis using assms(5)
        by (simp add: loop_broken[where world=world and process=process2, OF assms(2) assms(3) False rd])
    qed
    with eq show ?thesis by simp
  qed simp
qed

lemma ReadDescriptorsImpl_result:
  assumes "ReadDescriptorsImpl h a world process j d = (p2, r)"
  shows "(\<exists>dd. p2 = process\<lparr>vm_readv_calls := vm_readv_calls process @
            [[(jit_descriptor_addr process, of_nat (sizeof_JITDescriptor a)),
              (dex_descriptor_addr process, of_nat (sizeof_JITDescriptor a))]], died := dd\<rparr>) \<and>
         (\<forall>jd dx. r = Some (jd, dx) \<longrightarrow>
            (\<exists>rj rd. read_descriptors (world (now process)) = Some (rj, rd) \<and>
               JITDescriptor_Valid h a rj \<and> JITDescriptor_Valid h a rd \<and>
               action_seqlock jd = raw_action_seqlock rj \<and>
               action_seqlock dx = raw_action_seqlock rd))"
proof (cases "read_descriptors (world (now process))")
  case None
  with assms show ?thesis by (auto simp: ReadDescriptorsImpl_def Let_def)
next
  case (Some pr)
  obtain rj rd where pr: "pr = (rj, rd)" by (cases pr)
  let ?p = "process\<lparr>vm_readv_calls := vm_readv_calls process @
            [[(jit_descriptor_addr process, of_nat (sizeof_JITDescriptor a)),
              (dex_descriptor_addr process, of_nat (sizeof_JITDescriptor a))]]\<rparr>"
  have p2: "p2 = ?p" using assms Some pr
    by (auto simp: ReadDescriptorsImpl_def Let_def split: option.splits)
  then have "p2 = process\<lparr>vm_readv_calls := vm_readv_calls process @
            [[(jit_descriptor_addr process, of_nat (sizeof_JITDescriptor a)),
              (dex_descriptor_addr process, of_nat (sizeof_JITDescriptor a))]], died := died process\<rparr>"
    by simp
  moreover have "\<forall>jd dx. r = Some (jd, dx) \<longrightarrow>
            (\<exists>rj rd. read_descriptors (world (now process)) = Some (rj, rd) \<and>
               JITDescriptor_Valid h a rj \<and> JITDescriptor_Valid h a rd \<and>
               action_seqlock jd = raw_action_seqlock rj \<and>
               action_seqlock dx = raw_action_seqlock rd)"
    using assms Some pr
    by (auto simp: ReadDescriptorsImpl_def Let_def ParseDescriptor_def split: option.splits if_splits)
  ultimately show ?thesis by blast
qed

lemma ReadDescriptors_result:
  assumes "ReadDescriptors h world process j d = (p2, r)"
  shows "(\<exists>dd. p2 = process\<lparr>vm_readv_calls := vm_readv_calls process @ [descriptors_iov process],
                           died := dd\<rparr>) \<and>
         (\<forall>jd dx. r = Some (jd, dx) \<longrightarrow>
            (\<exists>rj rd. read_descriptors (world (now process)) = Some (rj, rd) \<and>
               JITDescriptor_Valid h (bitness process) rj \<and> JITDescriptor_Valid h (bitness process) rd \<and>
               action_seqlock jd = raw_action_seqlock rj \<and>
               action_seqlock dx = raw_action_seqlock rd))"
proof (cases "is_64bit process")
  case True
  with assms have "ReadDescriptorsImpl h ADDR_uint64_t world process j d = (p2, r)"
    by (simp add: ReadDescriptors_def)
  from ReadDescriptorsImpl_result[OF this] True show ?thesis
    by (simp add: descriptors_iov_def bitness_def)
next
  case False
  with assms have "ReadDescriptorsImpl h ADDR_uint32_t world process j d = (p2, r)"
    by (simp add: ReadDescriptors_def)
  from ReadDescriptorsImpl_result[OF this] False show ?thesis
    by (simp add: descriptors_iov_def bitness_def)
qed

lemma IsDescriptorChanged_result:
  assumes "IsDescriptorChanged h world process prev_descriptor = (ch, p2)"
  shows "(\<exists>dd. p2 = process\<lparr>vm_readv_calls := vm_readv_calls process @ [descriptors_iov process],
                           died := dd\<rparr>) \<and>
         (\<not> ch \<longrightarrow>
            (\<exists>rj rd. read_descriptors (world (now process)) = Some (rj, rd) \<and>
               JITDescriptor_Valid h (bitness process) rj \<and> JITDescriptor_Valid h (bitness process) rd \<and>
               raw_action_seqlock (if type prev_descriptor = kJIT then rj else rd) =
                 action_seqlock prev_descriptor))"
proof -
  obtain p r where rd: "ReadDescriptors h world process Descriptor_init Descriptor_init = (p, r)"
    by (cases "ReadDescriptors h world process Descriptor_init Descriptor_init")
  from ReadDescriptors_result[OF rd] have
    fr: "\<exists>dd. p = process\<lparr>vm_readv_calls := vm_readv_calls process @ [descriptors_iov process],
                           died := dd\<rparr>"
    and res: "\<forall>jd dx. r = Some (jd, dx) \<longrightarrow>
            (\<exists>rj rd. read_descriptors (world (now process)) = Some (rj, rd) \<and>
               JITDescriptor_Valid h (bitness process) rj \<and> JITDescriptor_Valid h (bitness process) rd \<and>
               action_seqlock jd = raw_action_seqlock rj \<and>
               action_seqlock dx = raw_action_seqlock rd)" by blast+
  show ?thesis
  proof (cases r)
    case None
    with assms rd have "ch" "p2 = p" by (auto simp: IsDescriptorChanged_def)
    with fr show ?thesis by simp
  next
    case (Some pr)
    obtain jd dx where pr: "pr = (jd, dx)" by (cases pr)
    from res Some pr obtain rj rd' where
      r: "read_descriptors (world (now process)) = Some (rj, rd')"
      "JITDescriptor_Valid h (bitness process) rj" "JITDescriptor_Valid h (bitness process) rd'"
      "action_seqlock jd = raw_action_seqlock rj" "action_seqlock dx = raw_action_seqlock rd'"
      by blast
    from assms rd Some pr have p2: "p2 = p"
      and ch: "ch = (if type prev_descriptor = kJIT
                     then action_seqlock prev_descriptor \<noteq> action_seqlock jd
                     else action_seqlock prev_descriptor \<noteq> action_seqlock dx)"
      by (auto simp: IsDescriptorChanged_def split: if_splits)
    from ch r have "\<not> ch \<longrightarrow> raw_action_seqlock (if type prev_descriptor = kJIT then rj else rd') =
                 action_seqlock prev_descriptor" by (auto split: if_splits)
    with r fr p2 show ?thesis by auto
  qed
qed

lemma JIT_loop_frame:
  "ReadJITCodeDebugInfo_loop env world reader process es debug_info = (ok, reader', process', debug_info') \<Longrightarrow>
   \<exists>reads d. process' = process\<lparr>vm_readv_calls := vm_readv_calls process @ reads, died := d\<rparr>"
proof (induction es arbitrary: reader process debug_info)
  case Nil
  have "process = process\<lparr>vm_readv_calls := vm_readv_calls process @ [], died := died process\<rparr>"
    by simp
  with Nil show ?case by (metis ReadJITCodeDebugInfo_loop.simps(1) prod.inject)
next
  case (Cons e es)
  have triv: "process = process\<lparr>vm_readv_calls := vm_readv_calls process @ [], died := died process\<rparr>"
    by simp
  show ?case
  proof (cases "code_symfile_size e > MAX_JIT_SYMFILE_SIZE")
    case True
    with Cons.prems have "ReadJITCodeDebugInfo_loop env world reader process es debug_info = (ok, reader', process', debug_info')"
      by simp
    from Cons.IH[OF this] show ?thesis .
  next
    case False
    obtain p1 r where rd: "ReadRemoteMem
               (\<lambda>t. read_bytes (world t) (code_symfile_addr e) (code_symfile_size e))
               process (code_symfile_addr e) (code_symfile_size e) = (p1, r)"
      by (cases "ReadRemoteMem
               (\<lambda>t. read_bytes (world t) (code_symfile_addr e) (code_symfile_size e))
               process (code_symfile_addr e) (code_symfile_size e)")
    from ReadRemoteMem_frame[OF rd] obtain d1 where
      p1: "p1 = process\<lparr>vm_readv_calls := vm_readv_calls process @ [[(code_symfile_addr e, code_symfile_size e)]], died := d1\<rparr>"
      by blast
    have "(\<exists>reader1 debug_info1. ReadJITCodeDebugInfo_loop env world reader1 p1 es debug_info1 = (ok, reader', process', debug_info'))
          \<or> process' = p1"
      using Cons.prems False rd
      by (auto simp: Let_def split: option.splits prod.splits if_splits)
    then show ?thesis
    proof
      assume "\<exists>reader1 debug_info1. ReadJITCodeDebugInfo_loop env world reader1 p1 es debug_info1 = (ok, reader', process', debug_info')"
      then obtain reader1 debug_info1 where "ReadJITCodeDebugInfo_loop env world reader1 p1 es debug_info1 = (ok, reader', process', debug_info')" by blast
      from Cons.IH[OF this] obtain reads d where
        "process' = p1\<lparr>vm_readv_calls := vm_readv_calls p1 @ reads, died := d\<rparr>" by blast
      with p1 have "process' = process\<lparr>vm_readv_calls := vm_readv_calls process @ ([[(code_symfile_addr e, code_symfile_size e)]] @ reads), died := d\<rparr>"
        by simp
      then show ?thesis by blast
    next
      assume "process' = p1"
      with p1 show ?thesis by blast
    qed
  qed
qed

lemma Dex_frame:
  "ReadDexFileDebugInfo env world process es debug_info = (process', debug_info') \<Longrightarrow>
   \<exists>d. process' = process\<lparr>died := d\<rparr>"
proof (cases "thread_mmaps_of (world (now process))")
  case None
  assume "ReadDexFileDebugInfo env world process es debug_info = (process', debug_info')"
  with None show ?thesis by (auto simp: ReadDexFileDebugInfo_def)
next
  case (Some a)
  assume "ReadDexFileDebugInfo env world process es debug_info = (process', debug_info')"
  with Some have "process' = process\<lparr>died := died process\<rparr>" by (auto simp: ReadDexFileDebugInfo_def)
  then show ?thesis by blast
qed

lemma ReadDebugInfo_no_update:
  "\<not> has_update new (old_descriptor_of (type new) process) \<Longrightarrow>
   ReadDebugInfo env h world reader process new debug_info = (True, reader, process, debug_info)"
  by (auto simp: ReadDebugInfo_def Let_def has_update_def)

lemma ReadDebugInfo_walk_failed:
  "has_update new (old_descriptor_of (type new) process) \<Longrightarrow>
   ReadNewCodeEntries h world process new (action_timestamp (old_descriptor_of (type new) process))
     (read_entry_limit_of new (old_descriptor_of (type new) process)) [] = (False, p1, es) \<Longrightarrow>
   ReadDebugInfo env h world reader process new debug_info = (True, reader, p1, debug_info)"
  by (auto simp: ReadDebugInfo_def Let_def has_update_def)

lemma ReadDebugInfo_changed:
  "has_update new (old_descriptor_of (type new) process) \<Longrightarrow>
   ReadNewCodeEntries h world process new (action_timestamp (old_descriptor_of (type new) process))
     (read_entry_limit_of new (old_descriptor_of (type new) process)) [] = (True, p1, es) \<Longrightarrow>
   IsDescriptorChanged h world p1 new = (True, p2) \<Longrightarrow>
   ReadDebugInfo env h world reader process new debug_info = (True, reader, p2, debug_info)"
  by (auto simp: ReadDebugInfo_def Let_def has_update_def)

lemma old_descriptor_of_frame [simp]:
  "old_descriptor_of ty (process\<lparr>vm_readv_calls := c, died := d\<rparr>) = old_descriptor_of ty process"
  "old_descriptor_of ty (process\<lparr>died := d\<rparr>) = old_descriptor_of ty process"
  "last_jit_descriptor (process\<lparr>vm_readv_calls := c, died := d\<rparr>) = last_jit_descriptor process"
  by (simp_all add: old_descriptor_of_def)

lemma ReadDebugInfo_commit:
  "has_update new (old_descriptor_of (type new) process) \<Longrightarrow>
   ReadNewCodeEntries h world process new (action_timestamp (old_descriptor_of (type new) process))
     (read_entry_limit_of new (old_descriptor_of (type new) process)) [] = (True, p1, es) \<Longrightarrow>
   IsDescriptorChanged h world p1 new = (False, p2) \<Longrightarrow>
   ReadDebugInfo env h world reader process new debug_info =
     (if es \<noteq> [] then
        if type new = kJIT then
          (case ReadJITCodeDebugInfo env world reader p2 es debug_info of
             (ok, r, p, d) \<Rightarrow> (ok, r, if ok then set_old_descriptor (type new) new p else p, d))
        else
          (case ReadDexFileDebugInfo env world p2 es debug_info of
             (p, d) \<Rightarrow> (True, reader, set_old_descriptor (type new) new p, d))
      else (True, reader, set_old_descriptor (type new) new p2, debug_info))"
  by (auto simp: ReadDebugInfo_def Let_def has_update_def split: prod.splits bool.splits)

lemma set_old_descriptor_calls [simp]:
  "vm_readv_calls (set_old_descriptor ty d process) = vm_readv_calls process"
  by (simp add: set_old_descriptor_def)

lemma ReadDebugInfo_commit_calls:
  assumes "has_update new (old_descriptor_of (type new) process)"
    and "ReadNewCodeEntries h world process new (action_timestamp (old_descriptor_of (type new) process))
     (read_entry_limit_of new (old_descriptor_of (type new) process)) [] = (True, p1, es)"
    and "IsDescriptorChanged h world p1 new = (False, p2)"
    and "ReadDebugInfo env h world reader process new debug_info = (ret, reader', process', debug_info')"
  shows "\<exists>later. vm_readv_calls process' = vm_readv_calls p2 @ later"
proof -
  note eq = ReadDebugInfo_commit[where env=env and reader=reader and debug_info=debug_info,
      OF assms(1) assms(2) assms(3)]
  consider (none) "es = []" | (jit) "es \<noteq> []" "type new = kJIT" | (dex) "es \<noteq> []" "type new \<noteq> kJIT"
    by blast
  then show ?thesis
  proof cases
    case none
    with eq assms(4) have "process' = set_old_descriptor (type new) new p2" by simp
    then show ?thesis by simp
  next
    case jit
    obtain ok r p d where j: "ReadJITCodeDebugInfo env world reader p2 es debug_info = (ok, r, p, d)"
      by (cases "ReadJITCodeDebugInfo env world reader p2 es debug_info")
    from JIT_loop_frame[OF j[unfolded ReadJITCodeDebugInfo_def]] obtain reads dd where
      p: "p = p2\<lparr>vm_readv_calls := vm_readv_calls p2 @ reads, died := dd\<rparr>" by blast
    from eq assms(4) jit j have "process' = (if ok then set_old_descriptor (type new) new p else p)"
      by simp
    with p show ?thesis by simp
  next
    case dex
    obtain p d where j: "ReadDexFileDebugInfo env world p2 es debug_info = (p, d)"
      by (cases "ReadDexFileDebugInfo env world p2 es debug_info")
    from Dex_frame[OF j] obtain dd where p: "p = p2\<lparr>died := dd\<rparr>" by blast
    from eq assms(4) dex j have "process' = set_old_descriptor (type new) new p" by simp
    with p show ?thesis by simp
  qed
qed

text \<open>
  Claim C1: for either kind of descriptor, after a successful walk the reader reads the
  descriptors again (the third part: the re-read is the call right after the walk's);
  the entries are emitted and the stored last descriptor is replaced only if the seqlock
  read then equals the seqlock of the snapshot the walk used (the first part); and if the
  seqlock read then differs or the read fails, or the snapshot's seqlock is odd, nothing
  is appended to the debug info and both stored descriptors are unchanged (the second
  part).
\<close>

theorem commit_only_after_equal_reread:
  assumes run: "ReadDebugInfo env h world reader process new_descriptor debug_info =
                  (ret, reader', process', debug_info')"
  defines "old_descriptor \<equiv> old_descriptor_of (type new_descriptor) process"
  defines "walk \<equiv> ReadNewCodeEntries h world process new_descriptor (action_timestamp old_descriptor)
                    (read_entry_limit_of new_descriptor old_descriptor) []"
  shows "(last_jit_descriptor process' \<noteq> last_jit_descriptor process \<or>
          last_dex_descriptor process' \<noteq> last_dex_descriptor process \<or>
          debug_info' \<noteq> debug_info \<longrightarrow>
            (\<exists>process1 new_entries raw_jit raw_dex.
               walk = (True, process1, new_entries) \<and>
               read_descriptors (world (now process1)) = Some (raw_jit, raw_dex) \<and>
               raw_action_seqlock (if type new_descriptor = kJIT then raw_jit else raw_dex) =
                 action_seqlock new_descriptor)) \<and>
         (action_seqlock new_descriptor AND 1 \<noteq> 0 \<or>
          (\<exists>process1 new_entries.
             walk = (True, process1, new_entries) \<and>
             (case read_descriptors (world (now process1)) of
                None \<Rightarrow> True
              | Some (raw_jit, raw_dex) \<Rightarrow>
                  raw_action_seqlock (if type new_descriptor = kJIT then raw_jit else raw_dex) \<noteq>
                    action_seqlock new_descriptor)) \<longrightarrow>
            ret \<and> debug_info' = debug_info \<and>
            last_jit_descriptor process' = last_jit_descriptor process \<and>
            last_dex_descriptor process' = last_dex_descriptor process) \<and>
         (\<forall>process1 new_entries.
            has_update new_descriptor old_descriptor \<and> walk = (True, process1, new_entries) \<longrightarrow>
            (\<exists>later. vm_readv_calls process' =
                       vm_readv_calls process1 @ [descriptors_iov process1] @ later))"
proof -
  obtain ok p1 es where w: "walk = (ok, p1, es)" by (cases walk)
  from ReadNewCodeEntries_frame[OF w[unfolded walk_def]] obtain reads1 d1 where
    p1: "p1 = process\<lparr>vm_readv_calls := vm_readv_calls process @ reads1, died := d1\<rparr>" by blast
  obtain ch p2 where c: "IsDescriptorChanged h world p1 new_descriptor = (ch, p2)"
    by (cases "IsDescriptorChanged h world p1 new_descriptor")
  from IsDescriptorChanged_result[OF c] obtain d2 where
    p2: "p2 = p1\<lparr>vm_readv_calls := vm_readv_calls p1 @ [descriptors_iov p1], died := d2\<rparr>"
    and eq: "\<not> ch \<longrightarrow> (\<exists>rj rd. read_descriptors (world (now p1)) = Some (rj, rd) \<and>
               JITDescriptor_Valid h (bitness p1) rj \<and> JITDescriptor_Valid h (bitness p1) rd \<and>
               raw_action_seqlock (if type new_descriptor = kJIT then rj else rd) =
                 action_seqlock new_descriptor)" by blast
  consider (no_update) "\<not> has_update new_descriptor old_descriptor"
    | (walk_failed) "has_update new_descriptor old_descriptor" "\<not> ok"
    | (changed) "has_update new_descriptor old_descriptor" "ok" "ch"
    | (commit) "has_update new_descriptor old_descriptor" "ok" "\<not> ch" by blast
  then show ?thesis
  proof cases
    case no_update
    from ReadDebugInfo_no_update[where env=env and h=h and world=world and reader=reader and debug_info=debug_info, OF no_update[unfolded old_descriptor_def]] run
    have "ret" "reader' = reader" "process' = process" "debug_info' = debug_info" by simp_all
    with no_update show ?thesis by simp
  next
    case walk_failed
    from ReadDebugInfo_walk_failed[where env=env and h=h and world=world and reader=reader and debug_info=debug_info and ?p1.0=p1 and es=es, OF walk_failed(1)[unfolded old_descriptor_def]]
      w walk_failed(2) run
    have "ret" "reader' = reader" "process' = p1" "debug_info' = debug_info"
      by (simp_all add: walk_def old_descriptor_def)
    with p1 w walk_failed show ?thesis by simp
  next
    case changed
    from ReadDebugInfo_changed[where env=env and h=h and world=world and reader=reader and debug_info=debug_info and ?p1.0=p1 and es=es and ?p2.0=p2, OF changed(1)[unfolded old_descriptor_def]]
      w changed c run
    have r: "ret" "reader' = reader" "process' = p2" "debug_info' = debug_info"
      by (simp_all add: walk_def old_descriptor_def)
    with p1 p2 w changed show ?thesis by simp
  next
    case commit
    from eq commit obtain rj rd where
      rr: "read_descriptors (world (now p1)) = Some (rj, rd)"
          "raw_action_seqlock (if type new_descriptor = kJIT then rj else rd) =
                 action_seqlock new_descriptor" by blast
    have even: "action_seqlock new_descriptor AND 1 = 0" using commit(1) by (simp add: has_update_def)
    have ok': "walk = (True, p1, es)" and c': "IsDescriptorChanged h world p1 new_descriptor = (False, p2)"
      using w c commit by simp_all
    from ReadDebugInfo_commit_calls[OF commit(1)[unfolded old_descriptor_def]
        ok'[unfolded walk_def old_descriptor_def] c' run]
    obtain later where "vm_readv_calls process' = vm_readv_calls p2 @ later" by blast
    with p2 have calls: "\<exists>later. vm_readv_calls process' = vm_readv_calls p1 @ [descriptors_iov p1] @ later"
      by simp
    from w commit rr even calls show ?thesis by auto
  qed
qed

theorem commit_only_after_equal_reread_witness:
  "(\<exists>process1 new_entries raw_jit raw_dex.
      ReadNewCodeEntries Host_other world_stable process_fresh jit_descriptor4
        (action_timestamp Descriptor_init) (read_entry_limit_of jit_descriptor4 Descriptor_init) [] =
        (True, process1, new_entries) \<and>
      read_descriptors (world_stable (now process1)) = Some (raw_jit, raw_dex) \<and>
      raw_action_seqlock raw_jit = 4) \<and>
   fst (ReadDebugInfo env0 Host_other world_racing reader0 process_fresh jit_descriptor4 []) \<and>
   snd (snd (snd (ReadDebugInfo env0 Host_other world_racing reader0 process_fresh
                    jit_descriptor4 []))) = [] \<and>
   last_jit_descriptor (fst (snd (snd (ReadDebugInfo env0 Host_other world_racing reader0
                                          process_fresh jit_descriptor4 [])))) = Descriptor_init"
proof -
  let ?stable = "ReadDebugInfo env0 Host_other world_stable reader0 process_fresh jit_descriptor4 []"
  let ?racing = "ReadDebugInfo env0 Host_other world_racing reader0 process_fresh jit_descriptor4 []"
  have old: "old_descriptor_of (type jit_descriptor4) process_fresh = Descriptor_init"
    by (simp add: old_descriptor_of_def jit_descriptor4_def process_fresh_def)
  have s: "?stable = (fst ?stable, fst (snd ?stable), fst (snd (snd ?stable)), snd (snd (snd ?stable)))"
    by simp
  have committed: "last_jit_descriptor (fst (snd (snd ?stable))) = jit_descriptor4"
    by (simp add: model_defs input_defs target_moved_on_def world_racing_def
        jit_descriptor4_def)
  have changed: "last_jit_descriptor (fst (snd (snd ?stable))) \<noteq> last_jit_descriptor process_fresh"
    unfolding committed by (simp add: jit_descriptor4_def process_fresh_def Descriptor_init_def)
  have part1: "\<exists>process1 new_entries raw_jit raw_dex.
      ReadNewCodeEntries Host_other world_stable process_fresh jit_descriptor4
        (action_timestamp Descriptor_init) (read_entry_limit_of jit_descriptor4 Descriptor_init) [] =
        (True, process1, new_entries) \<and>
      read_descriptors (world_stable (now process1)) = Some (raw_jit, raw_dex) \<and>
      raw_action_seqlock raw_jit = 4"
    using commit_only_after_equal_reread[OF s] changed unfolding old
    by (simp add: jit_descriptor4_def)
  have r: "?racing = (fst ?racing, fst (snd ?racing), fst (snd (snd ?racing)), snd (snd (snd ?racing)))"
    by simp
  have walk: "ReadNewCodeEntries Host_other world_racing process_fresh jit_descriptor4
        (action_timestamp Descriptor_init) (read_entry_limit_of jit_descriptor4 Descriptor_init) [] =
        (True, process_fresh\<lparr>vm_readv_calls := [[(0x2000, 40)], [(0x1000, 40)]]\<rparr>,
         [\<lparr>addr = 0x2000, code_symfile_addr = 0x5000, code_symfile_size = 64, timestamp = 200\<rparr>,
          \<lparr>addr = 0x1000, code_symfile_addr = 0x6000, code_symfile_size = 64, timestamp = 100\<rparr>])"
    by (simp add: model_defs input_defs target_moved_on_def world_racing_def
        jit_descriptor4_def)
  have differs: "(case read_descriptors (world_racing
                    (now (process_fresh\<lparr>vm_readv_calls := [[(0x2000, 40)], [(0x1000, 40)]]\<rparr>))) of
              None \<Rightarrow> True
            | Some (raw_jit, raw_dex) \<Rightarrow>
                raw_action_seqlock (if type jit_descriptor4 = kJIT then raw_jit else raw_dex) \<noteq>
                  action_seqlock jit_descriptor4)"
    by (simp add: now_def input_defs target_moved_on_def world_racing_def
        jit_descriptor4_def)
  have part2: "fst ?racing \<and> snd (snd (snd ?racing)) = [] \<and>
     last_jit_descriptor (fst (snd (snd ?racing))) = last_jit_descriptor process_fresh"
    using commit_only_after_equal_reread[OF r] walk differs unfolding old by blast
  from part1 part2 show ?thesis by (simp add: process_fresh_def)
qed

lemma ReadNewCodeEntries_cycle:
  assumes "walk_reaches world lts (now process) (first_entry_addr descriptor) xs b"
    "b \<in> set xs" "length xs < unat limit"
  shows "\<not> fst (ReadNewCodeEntries h world process descriptor lts limit acc)"
  using walk_cycle_rejected[OF assms]
  by (simp add: ReadNewCodeEntries_def ReadNewCodeEntriesImpl_def)

lemma ReadNewCodeEntries_invalid:
  assumes "walk_reaches world lts (now process) (first_entry_addr descriptor) xs b"
    "length xs < unat limit" "b \<noteq> 0"
    "read_entry (world (now process + length xs)) b = Some e"
    "(version descriptor = 1 \<and> \<not> JITCodeEntry_Valid e) \<or>
     (version descriptor = 2 \<and> \<not> JITCodeEntryV2_Valid e)"
  shows "\<not> fst (ReadNewCodeEntries h world process descriptor lts limit acc)"
  using assms(5)
proof
  assume v: "version descriptor = 1 \<and> \<not> JITCodeEntry_Valid e"
  then have "\<not> JITCodeEntry_Valid e" by simp
  from walk_invalid_rejected[OF assms(1) assms(2) assms(3) assms(4), of JITCodeEntry_Valid, OF this] v
  show ?thesis by (simp add: ReadNewCodeEntries_def ReadNewCodeEntriesImpl_def)
next
  assume v: "version descriptor = 2 \<and> \<not> JITCodeEntryV2_Valid e"
  then have "\<not> JITCodeEntryV2_Valid e" by simp
  from walk_invalid_rejected[OF assms(1) assms(2) assms(3) assms(4), of JITCodeEntryV2_Valid, OF this] v
  show ?thesis by (simp add: ReadNewCodeEntries_def ReadNewCodeEntriesImpl_def)
qed

lemma ReadDebugInfo_rejected_walk:
  assumes run: "ReadDebugInfo env h world reader process new debug_info =
                  (ret, reader', process', debug_info')"
    and rej: "\<not> fst (ReadNewCodeEntries h world process new
                 (action_timestamp (old_descriptor_of (type new) process))
                 (read_entry_limit_of new (old_descriptor_of (type new) process)) [])"
  shows "ret \<and> reader' = reader \<and> debug_info' = debug_info \<and>
         last_jit_descriptor process' = last_jit_descriptor process \<and>
         last_dex_descriptor process' = last_dex_descriptor process"
proof (cases "has_update new (old_descriptor_of (type new) process)")
  case False
  from ReadDebugInfo_no_update[where env=env and h=h and world=world and reader=reader
      and debug_info=debug_info, OF False] run
  show ?thesis by simp
next
  case True
  obtain ok p1 es where w: "ReadNewCodeEntries h world process new
                 (action_timestamp (old_descriptor_of (type new) process))
                 (read_entry_limit_of new (old_descriptor_of (type new) process)) [] = (ok, p1, es)"
    by (cases "ReadNewCodeEntries h world process new
                 (action_timestamp (old_descriptor_of (type new) process))
                 (read_entry_limit_of new (old_descriptor_of (type new) process)) []")
  with rej have ok: "\<not> ok" by simp
  from ReadNewCodeEntries_frame[OF w] obtain reads1 d1 where
    p1: "p1 = process\<lparr>vm_readv_calls := vm_readv_calls process @ reads1, died := d1\<rparr>" by blast
  from ReadDebugInfo_walk_failed[where env=env and reader=reader and debug_info=debug_info,
      OF True] w ok run
  have "ret" "reader' = reader" "process' = p1" "debug_info' = debug_info" by simp_all
  with p1 show ?thesis by simp
qed

text \<open>
  Claim C5, as stated, fails: a list with a cycle is not always rejected. With an entry
  whose next pointer leads back to itself and a seqlock that went from 0 to 2, the read
  limit is 1, the walk ends after that entry without meeting it again, the entry's
  symbol is emitted and the stored descriptor is replaced.
\<close>

theorem self_loop_within_limit_is_emitted:
  "walk_reaches (\<lambda>t. target_self_loop) (action_timestamp Descriptor_init) (now process_fresh)
     (first_entry_addr jit_descriptor2) [0x2000] 0x2000 \<and>
   0x2000 \<in> set [0x2000 :: uint64_t] \<and>
   fst (ReadNewCodeEntries Host_other (\<lambda>t. target_self_loop) process_fresh jit_descriptor2
          (action_timestamp Descriptor_init) (read_entry_limit_of jit_descriptor2 Descriptor_init) []) \<and>
   snd (snd (snd (ReadDebugInfo env0 Host_other (\<lambda>t. target_self_loop) reader0 process_fresh
                    jit_descriptor2 []))) =
     [JitCodeDebugInfo 42 100 0x5000 16 ''/tmp/jit_jit_app_cache:0-64'' 0] \<and>
   last_jit_descriptor (fst (snd (snd (ReadDebugInfo env0 Host_other (\<lambda>t. target_self_loop) reader0
        process_fresh jit_descriptor2 [])))) = jit_descriptor2 \<and>
   last_jit_descriptor process_fresh \<noteq> jit_descriptor2"
  by (simp add: model_defs input_defs entry_self_loop_def target_self_loop_def
      jit_descriptor2_def)

text \<open>
  Claim C5, amended: if the walk, following next pointers from \<^verbatim>\<open>first_entry_addr\<close>, comes
  back to a node it has passed before the read limit is used up (and before an entry at or
  below the timestamp cutoff ends it), the walk is rejected, nothing is emitted this tick
  and the stored last descriptors are unchanged.
\<close>

theorem revisited_node_rejects_walk:
  assumes "ReadDebugInfo env h world reader process new_descriptor debug_info =
             (ret, reader', process', debug_info')"
    and "walk_reaches world (action_timestamp (old_descriptor_of (type new_descriptor) process))
           (now process) (first_entry_addr new_descriptor) xs b"
    and "b \<in> set xs"
    and "length xs < unat (read_entry_limit_of new_descriptor
                              (old_descriptor_of (type new_descriptor) process))"
  shows "\<not> fst (ReadNewCodeEntries h world process new_descriptor
                 (action_timestamp (old_descriptor_of (type new_descriptor) process))
                 (read_entry_limit_of new_descriptor
                    (old_descriptor_of (type new_descriptor) process)) []) \<and>
         ret \<and> reader' = reader \<and> debug_info' = debug_info \<and>
         last_jit_descriptor process' = last_jit_descriptor process \<and>
         last_dex_descriptor process' = last_dex_descriptor process"
  using ReadNewCodeEntries_cycle[OF assms(2) assms(3) assms(4), of h "[]"]
    ReadDebugInfo_rejected_walk[OF assms(1)] by blast

theorem revisited_node_rejects_walk_witness:
  "\<not> fst (ReadNewCodeEntries Host_other (\<lambda>t. target_ring) process_fresh jit_descriptor6
            (action_timestamp Descriptor_init)
            (read_entry_limit_of jit_descriptor6 Descriptor_init) []) \<and>
   fst (ReadDebugInfo env0 Host_other (\<lambda>t. target_ring) reader0 process_fresh jit_descriptor6 []) \<and>
   snd (snd (snd (ReadDebugInfo env0 Host_other (\<lambda>t. target_ring) reader0 process_fresh
                    jit_descriptor6 []))) = [] \<and>
   last_jit_descriptor (fst (snd (snd (ReadDebugInfo env0 Host_other (\<lambda>t. target_ring) reader0
        process_fresh jit_descriptor6 [])))) = Descriptor_init"
proof -
  let ?run = "ReadDebugInfo env0 Host_other (\<lambda>t. target_ring) reader0 process_fresh
                jit_descriptor6 []"
  have old: "old_descriptor_of (type jit_descriptor6) process_fresh = Descriptor_init"
    by (simp add: old_descriptor_of_def jit_descriptor6_def process_fresh_def)
  have r: "?run = (fst ?run, fst (snd ?run), fst (snd (snd ?run)), snd (snd (snd ?run)))" by simp
  have reach: "walk_reaches (\<lambda>t. target_ring) (action_timestamp Descriptor_init)
                 (now process_fresh) (first_entry_addr jit_descriptor6) [0x2000, 0x1000] 0x2000"
    by (simp add: input_defs target_ring_def jit_descriptor6_def Descriptor_init_def)
  have again: "(0x2000 :: uint64_t) \<in> set [0x2000, 0x1000]" by simp
  have lim: "length [0x2000 :: uint64_t, 0x1000] <
               unat (read_entry_limit_of jit_descriptor6 Descriptor_init)"
    by (simp add: read_entry_limit_of_def jit_descriptor6_def Descriptor_init_def)
  from revisited_node_rejects_walk[OF r reach[folded old] again lim[folded old]]
  show ?thesis unfolding old by (simp add: process_fresh_def)
qed

text \<open>
  Claim C4, as stated, fails for version 2: the predicate of a version-2 entry looks at the
  seqlock only. A second entry with an even seqlock, \<^verbatim>\<open>symfile_addr\<close> 0 and
  \<^verbatim>\<open>symfile_size\<close> 0 is valid; the walk passes it without gathering it and ends well, the
  first entry's symbol is emitted and the stored descriptor is replaced.
\<close>

theorem v2_entry_without_symfile_is_valid:
  "JITCodeEntryV2_Valid entry_v2_no_symfile \<and>
   \<not> (symfile_addr entry_v2_no_symfile > 0 \<and> symfile_size entry_v2_no_symfile > 0 \<and>
      even (unat (seqlock entry_v2_no_symfile))) \<and>
   walk_reaches (\<lambda>t. target_v2_pair) (action_timestamp Descriptor_init) (now process_fresh)
     (first_entry_addr jit_descriptor_v2_pair) [0x2000] 0x1000 \<and>
   read_entry target_v2_pair 0x1000 = Some entry_v2_no_symfile \<and>
   ReadNewCodeEntries Host_other (\<lambda>t. target_v2_pair) process_fresh jit_descriptor_v2_pair
     (action_timestamp Descriptor_init)
     (read_entry_limit_of jit_descriptor_v2_pair Descriptor_init) [] =
     (True, process_fresh\<lparr>vm_readv_calls := [[(0x2000, 48)], [(0x1000, 48)]]\<rparr>,
      [\<lparr>addr = 0x2000, code_symfile_addr = 0x5000, code_symfile_size = 64, timestamp = 200\<rparr>]) \<and>
   snd (snd (snd (ReadDebugInfo env0 Host_other (\<lambda>t. target_v2_pair) reader0 process_fresh
                    jit_descriptor_v2_pair []))) =
     [JitCodeDebugInfo 42 200 0x5000 16 ''/tmp/jit_jit_app_cache:0-64'' 0] \<and>
   last_jit_descriptor (fst (snd (snd (ReadDebugInfo env0 Host_other (\<lambda>t. target_v2_pair)
        reader0 process_fresh jit_descriptor_v2_pair [])))) = jit_descriptor_v2_pair"
  by (simp add: model_defs input_defs entry_v2_200_def entry_v2_no_symfile_def
      target_v2_pair_def jit_descriptor_v2_pair_def)

text \<open>
  Claim C4, amended: a version-1 entry is valid iff \<^verbatim>\<open>symfile_addr > 0\<close> and
  \<^verbatim>\<open>symfile_size > 0\<close>; a version-2 entry is valid iff its seqlock is even; and when the
  walk comes upon an entry that fails the predicate of the descriptor's version, the walk
  is aborted: nothing is emitted and the stored last descriptors are unchanged.
\<close>

theorem entry_validity_and_abort:
  "(JITCodeEntry_Valid e \<longleftrightarrow> symfile_addr e > 0 \<and> symfile_size e > 0) \<and>
   (JITCodeEntryV2_Valid e \<longleftrightarrow> even (unat (seqlock e))) \<and>
   (ReadDebugInfo env h world reader process new_descriptor debug_info =
      (ret, reader', process', debug_info') \<and>
    walk_reaches world (action_timestamp (old_descriptor_of (type new_descriptor) process))
      (now process) (first_entry_addr new_descriptor) xs b \<and>
    length xs < unat (read_entry_limit_of new_descriptor
                        (old_descriptor_of (type new_descriptor) process)) \<and>
    b \<noteq> 0 \<and> read_entry (world (now process + length xs)) b = Some e \<and>
    ((version new_descriptor = 1 \<and> \<not> JITCodeEntry_Valid e) \<or>
     (version new_descriptor = 2 \<and> \<not> JITCodeEntryV2_Valid e)) \<longrightarrow>
    ret \<and> reader' = reader \<and> debug_info' = debug_info \<and>
    last_jit_descriptor process' = last_jit_descriptor process \<and>
    last_dex_descriptor process' = last_dex_descriptor process)"
proof (intro conjI impI)
  show "JITCodeEntry_Valid e \<longleftrightarrow> symfile_addr e > 0 \<and> symfile_size e > 0"
    by (simp add: JITCodeEntry_Valid_def)
  show "JITCodeEntryV2_Valid e \<longleftrightarrow> even (unat (seqlock e))"
    by (simp add: JITCodeEntryV2_Valid_def and_one_eq word_eq_iff_unsigned[where ?'a=nat] unat_mod
        even_iff_mod_2_eq_zero)
next
  assume a: "ReadDebugInfo env h world reader process new_descriptor debug_info =
      (ret, reader', process', debug_info') \<and>
    walk_reaches world (action_timestamp (old_descriptor_of (type new_descriptor) process))
      (now process) (first_entry_addr new_descriptor) xs b \<and>
    length xs < unat (read_entry_limit_of new_descriptor
                        (old_descriptor_of (type new_descriptor) process)) \<and>
    b \<noteq> 0 \<and> read_entry (world (now process + length xs)) b = Some e \<and>
    ((version new_descriptor = 1 \<and> \<not> JITCodeEntry_Valid e) \<or>
     (version new_descriptor = 2 \<and> \<not> JITCodeEntryV2_Valid e))"
  then have rej: "\<not> fst (ReadNewCodeEntries h world process new_descriptor
                 (action_timestamp (old_descriptor_of (type new_descriptor) process))
                 (read_entry_limit_of new_descriptor
                    (old_descriptor_of (type new_descriptor) process)) [])"
    using ReadNewCodeEntries_invalid[where h=h and acc="[]"] by blast
  from a have run: "ReadDebugInfo env h world reader process new_descriptor debug_info =
      (ret, reader', process', debug_info')" by simp
  from ReadDebugInfo_rejected_walk[OF run rej]
  show "ret" "reader' = reader" "debug_info' = debug_info"
    "last_jit_descriptor process' = last_jit_descriptor process"
    "last_dex_descriptor process' = last_dex_descriptor process" by simp_all
qed

theorem entry_validity_and_abort_witness:
  "fst (ReadDebugInfo env0 Host_other (\<lambda>t. target_v2 entry_v2_odd) reader0 process_fresh
          jit_descriptor_v2 []) \<and>
   snd (snd (snd (ReadDebugInfo env0 Host_other (\<lambda>t. target_v2 entry_v2_odd) reader0 process_fresh
                    jit_descriptor_v2 []))) = [] \<and>
   last_jit_descriptor (fst (snd (snd (ReadDebugInfo env0 Host_other (\<lambda>t. target_v2 entry_v2_odd)
        reader0 process_fresh jit_descriptor_v2 [])))) = Descriptor_init"
proof -
  let ?run = "ReadDebugInfo env0 Host_other (\<lambda>t. target_v2 entry_v2_odd) reader0 process_fresh
                jit_descriptor_v2 []"
  have old: "old_descriptor_of (type jit_descriptor_v2) process_fresh = Descriptor_init"
    by (simp add: old_descriptor_of_def jit_descriptor_v2_def process_fresh_def)
  have r: "?run = (fst ?run, fst (snd ?run), fst (snd (snd ?run)), snd (snd (snd ?run)))" by simp
  have reach: "walk_reaches (\<lambda>t. target_v2 entry_v2_odd) (action_timestamp Descriptor_init)
                 (now process_fresh) (first_entry_addr jit_descriptor_v2) [] 0x2000"
    by (simp add: jit_descriptor_v2_def)
  have lim: "length ([] :: uint64_t list) < unat (read_entry_limit_of jit_descriptor_v2 Descriptor_init)"
    by (simp add: read_entry_limit_of_def jit_descriptor_v2_def Descriptor_init_def)
  have rd: "read_entry (target_v2 entry_v2_odd) 0x2000 = Some entry_v2_odd"
    by (simp add: target_v2_def)
  have bad: "version jit_descriptor_v2 = 2 \<and> \<not> JITCodeEntryV2_Valid entry_v2_odd"
    by (simp add: jit_descriptor_v2_def JITCodeEntryV2_Valid_def entry_v2_odd_def)
  have "fst ?run \<and> fst (snd ?run) = reader0 \<and> snd (snd (snd ?run)) = [] \<and>
    last_jit_descriptor (fst (snd (snd ?run))) = last_jit_descriptor process_fresh \<and>
    last_dex_descriptor (fst (snd (snd ?run))) = last_dex_descriptor process_fresh"
    using entry_validity_and_abort[of entry_v2_odd env0 Host_other "\<lambda>t. target_v2 entry_v2_odd"
        reader0 process_fresh jit_descriptor_v2 "[]" "fst ?run" "fst (snd ?run)"
        "fst (snd (snd ?run))" "snd (snd (snd ?run))" "[]" "0x2000"]
      r reach lim rd bad unfolding old by simp
  then show ?thesis by (simp add: process_fresh_def)
qed


section \<open>Ingesting a batch of JIT entries\<close>

lemma GetTempSymFile_frame [simp]:
  "GetTempSymFile env reader (process\<lparr>vm_readv_calls := c\<rparr>) jit_entry =
   GetTempSymFile env reader process jit_entry"
  "GetTempSymFile env reader (process\<lparr>died := d\<rparr>) jit_entry =
   GetTempSymFile env reader process jit_entry"
  by (simp_all add: GetTempSymFile_def)

lemma JIT_loop_skip:
  "code_symfile_size jit_entry > MAX_JIT_SYMFILE_SIZE \<Longrightarrow>
   ReadJITCodeDebugInfo_loop env world reader process (jit_entry # rest) debug_info =
   ReadJITCodeDebugInfo_loop env world reader process rest debug_info"
  by simp

lemma JIT_loop_short_read:
  "\<not> code_symfile_size jit_entry > MAX_JIT_SYMFILE_SIZE \<Longrightarrow>
   read_bytes (world (now process)) (code_symfile_addr jit_entry) (code_symfile_size jit_entry) = None \<Longrightarrow>
   ReadJITCodeDebugInfo_loop env world reader process (jit_entry # rest) debug_info =
   ReadJITCodeDebugInfo_loop env world reader
     (process\<lparr>vm_readv_calls := vm_readv_calls process @
        [[(code_symfile_addr jit_entry, code_symfile_size jit_entry)]], died := True\<rparr>)
     rest debug_info"
  by (simp add: ReadRemoteMem_None)

lemma JIT_loop_bad_magic:
  "\<not> code_symfile_size jit_entry > MAX_JIT_SYMFILE_SIZE \<Longrightarrow>
   read_bytes (world (now process)) (code_symfile_addr jit_entry) (code_symfile_size jit_entry) = Some data \<Longrightarrow>
   \<not> IsValidElfFileMagic env data (code_symfile_size jit_entry) \<Longrightarrow>
   ReadJITCodeDebugInfo_loop env world reader process (jit_entry # rest) debug_info =
   ReadJITCodeDebugInfo_loop env world reader
     (process\<lparr>vm_readv_calls := vm_readv_calls process @
        [[(code_symfile_addr jit_entry, code_symfile_size jit_entry)]]\<rparr>)
     rest debug_info"
  by (simp add: ReadRemoteMem_Some)

lemma JIT_loop_ingest:
  "\<not> code_symfile_size jit_entry > MAX_JIT_SYMFILE_SIZE \<Longrightarrow>
   read_bytes (world (now process)) (code_symfile_addr jit_entry) (code_symfile_size jit_entry) = Some data \<Longrightarrow>
   IsValidElfFileMagic env data (code_symfile_size jit_entry) \<Longrightarrow>
   GetTempSymFile env reader process jit_entry = (reader1, Some slot) \<Longrightarrow>
   symfile_at slot reader1 = Some symfile \<Longrightarrow>
   WriteEntry_ok env symfile data (code_symfile_size jit_entry) \<Longrightarrow>
   ReadJITCodeDebugInfo_loop env world reader process (jit_entry # rest) debug_info =
   ReadJITCodeDebugInfo_loop env world
     (symfile_put slot (symfile\<lparr>offset := offset symfile + code_symfile_size jit_entry\<rparr>) reader1)
     (process\<lparr>vm_readv_calls := vm_readv_calls process @
        [[(code_symfile_addr jit_entry, code_symfile_size jit_entry)]]\<rparr>)
     rest
     (case ElfFile_symbols env data (code_symfile_size jit_entry) of
        None \<Rightarrow> debug_info
      | Some symbols \<Rightarrow> debug_info @ symbol_infos (pid process) jit_entry symfile (offset symfile) symbols)"
  by (simp add: ReadRemoteMem_Some Let_def cong: option.case_cong)

lemma JIT_loop_reads_first:
  assumes "\<not> code_symfile_size jit_entry > MAX_JIT_SYMFILE_SIZE"
    and "ReadJITCodeDebugInfo_loop env world reader process (jit_entry # rest) debug_info =
           (ok, reader', process', debug_info')"
  shows "\<exists>later. vm_readv_calls process' = vm_readv_calls process @
           [(code_symfile_addr jit_entry, code_symfile_size jit_entry)] # later"
proof -
  obtain p1 r where rd: "ReadRemoteMem
               (\<lambda>t. read_bytes (world t) (code_symfile_addr jit_entry) (code_symfile_size jit_entry))
               process (code_symfile_addr jit_entry) (code_symfile_size jit_entry) = (p1, r)"
    by (cases "ReadRemoteMem
               (\<lambda>t. read_bytes (world t) (code_symfile_addr jit_entry) (code_symfile_size jit_entry))
               process (code_symfile_addr jit_entry) (code_symfile_size jit_entry)")
  from ReadRemoteMem_frame[OF rd] obtain d1 where
    p1: "p1 = process\<lparr>vm_readv_calls := vm_readv_calls process @
           [[(code_symfile_addr jit_entry, code_symfile_size jit_entry)]], died := d1\<rparr>" by blast
  have "(\<exists>reader1 debug_info1. ReadJITCodeDebugInfo_loop env world reader1 p1 rest debug_info1 =
            (ok, reader', process', debug_info')) \<or> process' = p1"
    using assms rd by (auto simp: Let_def split: option.splits prod.splits if_splits)
  then show ?thesis
  proof
    assume "\<exists>reader1 debug_info1. ReadJITCodeDebugInfo_loop env world reader1 p1 rest debug_info1 =
            (ok, reader', process', debug_info')"
    then obtain reader1 debug_info1 where
      "ReadJITCodeDebugInfo_loop env world reader1 p1 rest debug_info1 =
            (ok, reader', process', debug_info')" by blast
    from JIT_loop_frame[OF this] obtain reads d where
      "process' = p1\<lparr>vm_readv_calls := vm_readv_calls p1 @ reads, died := d\<rparr>" by blast
    with p1 show ?thesis by simp
  next
    assume "process' = p1"
    with p1 show ?thesis by simp
  qed
qed

lemma GetTempSymFile_created:
  assumes "\<forall>p drop. TempSymFile_Create env p drop \<noteq> None"
  shows "\<exists>reader1 slot symfile. GetTempSymFile env reader process jit_entry = (reader1, Some slot) \<and>
           symfile_at slot reader1 = Some symfile"
proof -
  have z: "TempSymFile_Create env (symfile_prefix reader @ ''_'' @ kJITZygoteCacheFile env)
             (symfile_option reader = kDropSymFiles) \<noteq> None"
    and a: "TempSymFile_Create env (symfile_prefix reader @ ''_'' @ kJITAppCacheFile env)
             (symfile_option reader = kDropSymFiles) \<noteq> None"
    using assms by blast+
  then show ?thesis by (auto simp: GetTempSymFile_def Let_def)
qed

lemma JIT_loop_succeeds:
  assumes c: "\<forall>p drop. TempSymFile_Create env p drop \<noteq> None"
    and w: "\<forall>f data n. WriteEntry_ok env f data n"
  shows "fst (ReadJITCodeDebugInfo_loop env world reader process jit_entries debug_info)"
proof (induction jit_entries arbitrary: reader process debug_info)
  case Nil
  show ?case by simp
next
  case (Cons e es)
  show ?case
  proof (cases "code_symfile_size e > MAX_JIT_SYMFILE_SIZE")
    case True
    show ?thesis by (simp only: JIT_loop_skip[OF True] Cons.IH)
  next
    case small: False
    show ?thesis
    proof (cases "read_bytes (world (now process)) (code_symfile_addr e) (code_symfile_size e)")
      case None
      show ?thesis by (simp only: JIT_loop_short_read[where world=world and process=process, OF small None] Cons.IH)
    next
      case (Some data)
      show ?thesis
      proof (cases "IsValidElfFileMagic env data (code_symfile_size e)")
        case False
        show ?thesis by (simp only: JIT_loop_bad_magic[where world=world and process=process, OF small Some False] Cons.IH)
      next
        case True
        from GetTempSymFile_created[OF c, of reader process e] obtain reader1 slot symfile where
          g: "GetTempSymFile env reader process e = (reader1, Some slot)"
             "symfile_at slot reader1 = Some symfile" by blast
        from w have "WriteEntry_ok env symfile data (code_symfile_size e)" by simp
        then show ?thesis by (simp only: JIT_loop_ingest[where world=world and process=process, OF small Some True g] Cons.IH)
      qed
    qed
  qed
qed


lemma JIT_loop_fatal:
  "\<not> code_symfile_size jit_entry > MAX_JIT_SYMFILE_SIZE \<Longrightarrow>
   read_bytes (world (now process)) (code_symfile_addr jit_entry) (code_symfile_size jit_entry) = Some data \<Longrightarrow>
   IsValidElfFileMagic env data (code_symfile_size jit_entry) \<Longrightarrow>
   GetTempSymFile env reader process jit_entry = (reader1, got) \<Longrightarrow>
   got = None \<or>
   (\<exists>slot symfile. got = Some slot \<and> symfile_at slot reader1 = Some symfile \<and>
      \<not> WriteEntry_ok env symfile data (code_symfile_size jit_entry)) \<Longrightarrow>
   ReadJITCodeDebugInfo_loop env world reader process (jit_entry # rest) debug_info =
     (False, reader1,
      process\<lparr>vm_readv_calls := vm_readv_calls process @
        [[(code_symfile_addr jit_entry, code_symfile_size jit_entry)]]\<rparr>, debug_info)"
  by (auto simp add: ReadRemoteMem_Some Let_def)

lemma MAX_JIT_SYMFILE_SIZE_value: "MAX_JIT_SYMFILE_SIZE = 1048576"
  by (simp add: MAX_JIT_SYMFILE_SIZE_def kMegabyte_def)

text \<open>
  Claim C7: a symfile is ingested only when \<^verbatim>\<open>symfile_size\<close> is at most 1 MiB. An entry
  above 1048576 bytes is skipped: the batch goes on exactly as if the entry were not in it,
  with no read, no record and no error (first part). An entry of at most 1048576 bytes,
  so also one of exactly 1 MiB, is read from the target (second part), and when the read,
  the ELF magic, the scratch file and the write are fine, the scratch file grows by its
  size and its symbols' records are appended (third part).
\<close>

theorem symfile_cap_at_1MiB:
  "(code_symfile_size jit_entry > 1048576 \<longrightarrow>
      ReadJITCodeDebugInfo env world reader process (jit_entry # rest) debug_info =
      ReadJITCodeDebugInfo env world reader process rest debug_info) \<and>
   (code_symfile_size jit_entry \<le> 1048576 \<and>
    ReadJITCodeDebugInfo env world reader process (jit_entry # rest) debug_info =
      (ok, reader', process', debug_info') \<longrightarrow>
      (\<exists>later. vm_readv_calls process' = vm_readv_calls process @
         [(code_symfile_addr jit_entry, code_symfile_size jit_entry)] # later)) \<and>
   (code_symfile_size jit_entry \<le> 1048576 \<and>
    read_bytes (world (now process)) (code_symfile_addr jit_entry) (code_symfile_size jit_entry) =
      Some data \<and>
    IsValidElfFileMagic env data (code_symfile_size jit_entry) \<and>
    GetTempSymFile env reader process jit_entry = (reader1, Some slot) \<and>
    symfile_at slot reader1 = Some symfile \<and>
    WriteEntry_ok env symfile data (code_symfile_size jit_entry) \<longrightarrow>
      ReadJITCodeDebugInfo env world reader process (jit_entry # rest) debug_info =
      ReadJITCodeDebugInfo env world
        (symfile_put slot (symfile\<lparr>offset := offset symfile + code_symfile_size jit_entry\<rparr>)
           reader1)
        (process\<lparr>vm_readv_calls := vm_readv_calls process @
           [[(code_symfile_addr jit_entry, code_symfile_size jit_entry)]]\<rparr>)
        rest
        (case ElfFile_symbols env data (code_symfile_size jit_entry) of
           None \<Rightarrow> debug_info
         | Some symbols \<Rightarrow>
             debug_info @ symbol_infos (pid process) jit_entry symfile (offset symfile) symbols))"
proof (intro conjI impI)
  assume "code_symfile_size jit_entry > 1048576"
  then have "code_symfile_size jit_entry > MAX_JIT_SYMFILE_SIZE"
    by (simp add: MAX_JIT_SYMFILE_SIZE_value)
  from JIT_loop_skip[OF this]
  show "ReadJITCodeDebugInfo env world reader process (jit_entry # rest) debug_info =
        ReadJITCodeDebugInfo env world reader process rest debug_info"
    by (simp only: ReadJITCodeDebugInfo_def)
next
  assume a: "code_symfile_size jit_entry \<le> 1048576 \<and>
    ReadJITCodeDebugInfo env world reader process (jit_entry # rest) debug_info =
      (ok, reader', process', debug_info')"
  then have small: "\<not> code_symfile_size jit_entry > MAX_JIT_SYMFILE_SIZE"
    by (auto simp: MAX_JIT_SYMFILE_SIZE_value not_less)
  from a have "ReadJITCodeDebugInfo_loop env world reader process (jit_entry # rest) debug_info =
      (ok, reader', process', debug_info')" by (simp only: ReadJITCodeDebugInfo_def)
  from JIT_loop_reads_first[OF small this]
  show "\<exists>later. vm_readv_calls process' = vm_readv_calls process @
         [(code_symfile_addr jit_entry, code_symfile_size jit_entry)] # later" .
next
  assume a: "code_symfile_size jit_entry \<le> 1048576 \<and>
    read_bytes (world (now process)) (code_symfile_addr jit_entry) (code_symfile_size jit_entry) =
      Some data \<and>
    IsValidElfFileMagic env data (code_symfile_size jit_entry) \<and>
    GetTempSymFile env reader process jit_entry = (reader1, Some slot) \<and>
    symfile_at slot reader1 = Some symfile \<and>
    WriteEntry_ok env symfile data (code_symfile_size jit_entry)"
  then have small: "\<not> code_symfile_size jit_entry > MAX_JIT_SYMFILE_SIZE"
    by (auto simp: MAX_JIT_SYMFILE_SIZE_value not_less)
  from a have rd: "read_bytes (world (now process)) (code_symfile_addr jit_entry)
                     (code_symfile_size jit_entry) = Some data"
    and m: "IsValidElfFileMagic env data (code_symfile_size jit_entry)"
    and g: "GetTempSymFile env reader process jit_entry = (reader1, Some slot)"
    and f: "symfile_at slot reader1 = Some symfile"
    and w: "WriteEntry_ok env symfile data (code_symfile_size jit_entry)" by simp_all
  from JIT_loop_ingest[where world=world and process=process, OF small rd m g f w]
  show "ReadJITCodeDebugInfo env world reader process (jit_entry # rest) debug_info =
      ReadJITCodeDebugInfo env world
        (symfile_put slot (symfile\<lparr>offset := offset symfile + code_symfile_size jit_entry\<rparr>)
           reader1)
        (process\<lparr>vm_readv_calls := vm_readv_calls process @
           [[(code_symfile_addr jit_entry, code_symfile_size jit_entry)]]\<rparr>)
        rest
        (case ElfFile_symbols env data (code_symfile_size jit_entry) of
           None \<Rightarrow> debug_info
         | Some symbols \<Rightarrow>
             debug_info @ symbol_infos (pid process) jit_entry symfile (offset symfile) symbols)"
    by (simp only: ReadJITCodeDebugInfo_def)
qed

theorem symfile_cap_at_1MiB_witness:
  "ReadJITCodeDebugInfo env0 world_stable reader0 process_fresh [entry_1MiB_plus_1] [] =
     (True, reader0, process_fresh, []) \<and>
   ReadJITCodeDebugInfo env0 world_stable reader0 process_fresh [entry_exactly_1MiB] [] =
     (True,
      reader0\<lparr>app_symfile := Some \<lparr>path = ''/tmp/jit_jit_app_cache'', offset = 1048576\<rparr>\<rparr>,
      process_fresh\<lparr>vm_readv_calls := [[(0x5000, 1048576)]]\<rparr>,
      [JitCodeDebugInfo 42 200 0x5000 16 ''/tmp/jit_jit_app_cache:0-1048576'' 0])"
proof -
  have over: "code_symfile_size entry_1MiB_plus_1 > 1048576"
    by (simp add: entry_1MiB_plus_1_def)
  have nil: "ReadJITCodeDebugInfo env0 world_stable reader0 process_fresh [] [] =
     (True, reader0, process_fresh, [])" by (simp add: ReadJITCodeDebugInfo_def)
  have exact: "code_symfile_size entry_exactly_1MiB \<le> 1048576"
    by (simp add: entry_exactly_1MiB_def)
  have rd: "read_bytes (world_stable (now process_fresh)) (code_symfile_addr entry_exactly_1MiB)
              (code_symfile_size entry_exactly_1MiB) = Some 0x5000"
    by (simp add: input_defs entry_exactly_1MiB_def)
  have m: "IsValidElfFileMagic env0 0x5000 (code_symfile_size entry_exactly_1MiB)"
    by (simp add: env0_def)
  have g: "GetTempSymFile env0 reader0 process_fresh entry_exactly_1MiB =
     (reader0\<lparr>app_symfile := Some \<lparr>path = ''/tmp/jit_jit_app_cache'', offset = 0\<rparr>\<rparr>,
      Some App_symfile)"
    by (simp add: GetTempSymFile_def input_defs)
  have f: "symfile_at App_symfile
             (reader0\<lparr>app_symfile := Some \<lparr>path = ''/tmp/jit_jit_app_cache'', offset = 0\<rparr>\<rparr>) =
           Some \<lparr>path = ''/tmp/jit_jit_app_cache'', offset = 0\<rparr>" by simp
  have w: "WriteEntry_ok env0 \<lparr>path = ''/tmp/jit_jit_app_cache'', offset = 0\<rparr> 0x5000
             (code_symfile_size entry_exactly_1MiB)" by (simp add: env0_def)
  from symfile_cap_at_1MiB[of entry_1MiB_plus_1 env0 world_stable reader0 process_fresh "[]" "[]"]
    over nil
  have one: "ReadJITCodeDebugInfo env0 world_stable reader0 process_fresh [entry_1MiB_plus_1] [] =
     (True, reader0, process_fresh, [])" by simp
  from symfile_cap_at_1MiB[of entry_exactly_1MiB env0 world_stable reader0 process_fresh "[]" "[]"
      _ _ _ _ "0x5000"
      "reader0\<lparr>app_symfile := Some \<lparr>path = ''/tmp/jit_jit_app_cache'', offset = 0\<rparr>\<rparr>"
      App_symfile "\<lparr>path = ''/tmp/jit_jit_app_cache'', offset = 0\<rparr>"]
    exact rd m g f w
  have two: "ReadJITCodeDebugInfo env0 world_stable reader0 process_fresh [entry_exactly_1MiB] [] =
     (True,
      reader0\<lparr>app_symfile := Some \<lparr>path = ''/tmp/jit_jit_app_cache'', offset = 1048576\<rparr>\<rparr>,
      process_fresh\<lparr>vm_readv_calls := [[(0x5000, 1048576)]]\<rparr>,
      [JitCodeDebugInfo 42 200 0x5000 16 ''/tmp/jit_jit_app_cache:0-1048576'' 0])"
    by (simp add: ReadJITCodeDebugInfo_def input_defs entry_exactly_1MiB_def symbol_infos_def
        PRIu64.simps)
  from one two show ?thesis by simp
qed

text \<open>
  Claim C9: during JIT symfile ingestion a short read of one entry's symfile marks the
  process died and the batch goes on with the remaining entries (first part); the
  function returns success whenever creating and writing the scratch file cannot fail,
  whatever the reads do (second part); and it returns false when the scratch file cannot
  be created or written (third part).
\<close>

theorem short_symfile_read_is_not_fatal:
  "(code_symfile_size jit_entry \<le> MAX_JIT_SYMFILE_SIZE \<and>
    read_bytes (world (now process)) (code_symfile_addr jit_entry) (code_symfile_size jit_entry) =
      None \<longrightarrow>
      ReadJITCodeDebugInfo env world reader process (jit_entry # rest) debug_info =
      ReadJITCodeDebugInfo env world reader
        (process\<lparr>vm_readv_calls := vm_readv_calls process @
           [[(code_symfile_addr jit_entry, code_symfile_size jit_entry)]], died := True\<rparr>)
        rest debug_info) \<and>
   ((\<forall>p drop. TempSymFile_Create env p drop \<noteq> None) \<and>
    (\<forall>f data n. WriteEntry_ok env f data n) \<longrightarrow>
      fst (ReadJITCodeDebugInfo env world reader process jit_entries debug_info)) \<and>
   (code_symfile_size jit_entry \<le> MAX_JIT_SYMFILE_SIZE \<and>
    read_bytes (world (now process)) (code_symfile_addr jit_entry) (code_symfile_size jit_entry) =
      Some data \<and>
    IsValidElfFileMagic env data (code_symfile_size jit_entry) \<and>
    GetTempSymFile env reader process jit_entry = (reader1, got) \<and>
    (got = None \<or>
     (\<exists>slot symfile. got = Some slot \<and> symfile_at slot reader1 = Some symfile \<and>
        \<not> WriteEntry_ok env symfile data (code_symfile_size jit_entry))) \<longrightarrow>
      \<not> fst (ReadJITCodeDebugInfo env world reader process (jit_entry # rest) debug_info))"
proof (intro conjI impI)
  assume a: "code_symfile_size jit_entry \<le> MAX_JIT_SYMFILE_SIZE \<and>
    read_bytes (world (now process)) (code_symfile_addr jit_entry) (code_symfile_size jit_entry) =
      None"
  then have small: "\<not> code_symfile_size jit_entry > MAX_JIT_SYMFILE_SIZE" by (auto simp: not_less)
  from a have rd: "read_bytes (world (now process)) (code_symfile_addr jit_entry)
                     (code_symfile_size jit_entry) = None" by simp
  from JIT_loop_short_read[where world=world and process=process, OF small rd]
  show "ReadJITCodeDebugInfo env world reader process (jit_entry # rest) debug_info =
      ReadJITCodeDebugInfo env world reader
        (process\<lparr>vm_readv_calls := vm_readv_calls process @
           [[(code_symfile_addr jit_entry, code_symfile_size jit_entry)]], died := True\<rparr>)
        rest debug_info"
    by (simp only: ReadJITCodeDebugInfo_def)
next
  assume "(\<forall>p drop. TempSymFile_Create env p drop \<noteq> None) \<and>
    (\<forall>f data n. WriteEntry_ok env f data n)"
  then have c: "\<forall>p drop. TempSymFile_Create env p drop \<noteq> None"
    and w: "\<forall>f data n. WriteEntry_ok env f data n" by simp_all
  from JIT_loop_succeeds[OF c w]
  show "fst (ReadJITCodeDebugInfo env world reader process jit_entries debug_info)"
    by (simp only: ReadJITCodeDebugInfo_def)
next
  assume a: "code_symfile_size jit_entry \<le> MAX_JIT_SYMFILE_SIZE \<and>
    read_bytes (world (now process)) (code_symfile_addr jit_entry) (code_symfile_size jit_entry) =
      Some data \<and>
    IsValidElfFileMagic env data (code_symfile_size jit_entry) \<and>
    GetTempSymFile env reader process jit_entry = (reader1, got) \<and>
    (got = None \<or>
     (\<exists>slot symfile. got = Some slot \<and> symfile_at slot reader1 = Some symfile \<and>
        \<not> WriteEntry_ok env symfile data (code_symfile_size jit_entry)))"
  then have small: "\<not> code_symfile_size jit_entry > MAX_JIT_SYMFILE_SIZE" by (auto simp: not_less)
  from a have rd: "read_bytes (world (now process)) (code_symfile_addr jit_entry)
                     (code_symfile_size jit_entry) = Some data"
    and m: "IsValidElfFileMagic env data (code_symfile_size jit_entry)"
    and g: "GetTempSymFile env reader process jit_entry = (reader1, got)"
    and f: "got = None \<or>
     (\<exists>slot symfile. got = Some slot \<and> symfile_at slot reader1 = Some symfile \<and>
        \<not> WriteEntry_ok env symfile data (code_symfile_size jit_entry))" by simp_all
  from JIT_loop_fatal[where world=world and process=process, OF small rd m g f]
  show "\<not> fst (ReadJITCodeDebugInfo env world reader process (jit_entry # rest) debug_info)"
    by (simp only: ReadJITCodeDebugInfo_def fst_conv not_False_eq_True)
qed

theorem short_symfile_read_is_not_fatal_witness:
  "ReadJITCodeDebugInfo env0 (\<lambda>t. target_symfiles_gone) reader0 process_fresh new_entries_two [] =
     (True,
      reader0\<lparr>app_symfile := Some \<lparr>path = ''/tmp/jit_jit_app_cache'', offset = 64\<rparr>\<rparr>,
      process_fresh\<lparr>vm_readv_calls := [[(0x5000, 64)], [(0x6000, 64)]], died := True\<rparr>,
      [JitCodeDebugInfo 42 100 0x6000 16 ''/tmp/jit_jit_app_cache:0-64'' 0]) \<and>
   fst (ReadJITCodeDebugInfo env0 (\<lambda>t. target_symfiles_gone) reader0 process_fresh
          new_entries_two [])"
proof -
  let ?e1 = "\<lparr>addr = 0x2000, code_symfile_addr = 0x5000, code_symfile_size = 64, timestamp = 200\<rparr>"
  let ?e2 = "\<lparr>addr = 0x1000, code_symfile_addr = 0x6000, code_symfile_size = 64, timestamp = 100\<rparr>"
  have small: "code_symfile_size ?e1 \<le> MAX_JIT_SYMFILE_SIZE"
    by (simp add: MAX_JIT_SYMFILE_SIZE_def kMegabyte_def)
  have short: "read_bytes (target_symfiles_gone) (code_symfile_addr ?e1) (code_symfile_size ?e1) = None"
    by (simp add: target_symfiles_gone_def target_two_entries_def)
  have rest: "ReadJITCodeDebugInfo env0 (\<lambda>t. target_symfiles_gone) reader0
      (process_fresh\<lparr>vm_readv_calls := vm_readv_calls process_fresh @ [[(0x5000, 64)]], died := True\<rparr>)
      [?e2] [] =
     (True,
      reader0\<lparr>app_symfile := Some \<lparr>path = ''/tmp/jit_jit_app_cache'', offset = 64\<rparr>\<rparr>,
      process_fresh\<lparr>vm_readv_calls := [[(0x5000, 64)], [(0x6000, 64)]], died := True\<rparr>,
      [JitCodeDebugInfo 42 100 0x6000 16 ''/tmp/jit_jit_app_cache:0-64'' 0])"
    by (simp add: model_defs input_defs target_symfiles_gone_def)
  have create: "\<forall>p drop. TempSymFile_Create env0 p drop \<noteq> None" by (simp add: env0_def)
  have writes: "\<forall>f data n. WriteEntry_ok env0 f data n" by (simp add: env0_def)
  from short_symfile_read_is_not_fatal[of "?e1" "\<lambda>t. target_symfiles_gone" process_fresh env0
      reader0 "[?e2]" "[]" new_entries_two]
    small short rest create writes
  show ?thesis by (simp add: new_entries_two_def)
qed


section \<open>Delivery to the consumer\<close>

lemma FlushDebugInfo_loop_eq:
  "FlushDebugInfo_loop ts q acc =
     (dropWhile (\<lambda>x. info_timestamp x < ts) q, acc @ takeWhile (\<lambda>x. info_timestamp x < ts) q)"
proof (induction q arbitrary: acc)
  case Nil
  show ?case by (subst FlushDebugInfo_loop.simps) simp
next
  case (Cons x q)
  show ?case
    by (subst FlushDebugInfo_loop.simps) (simp add: q_top_def q_pop_def Cons.IH)
qed

lemma push_all_sorted:
  "sorted (map info_timestamp q) \<Longrightarrow>
   sorted (map info_timestamp (foldl (\<lambda>q info. q_push info q) q batch))"
  by (induction batch arbitrary: q) (simp_all add: q_push_def sorted_insort_key)

lemma push_all_set:
  "set (foldl (\<lambda>q info. q_push info q) q batch) = set q \<union> set batch"
  by (induction batch arbitrary: q) (auto simp: q_push_def set_insort_key)

lemma sorted_takeWhile_le_dropWhile:
  "sorted (map f q) \<Longrightarrow> x \<in> set (takeWhile P q) \<Longrightarrow> y \<in> set (dropWhile P q) \<Longrightarrow>
   f x \<le> (f y :: 'a :: linorder)"
proof (induction q)
  case Nil
  then show ?case by simp
next
  case (Cons a q)
  then show ?case by (auto split: if_splits dest: set_dropWhileD)
qed

lemma AddDebugInfo_ordered:
  "sync_option reader = kSyncWithRecords \<Longrightarrow>
   AddDebugInfo env reader batch sync =
     (True, reader\<lparr>debug_info_q := foldl (\<lambda>q info. q_push info q) (debug_info_q reader) batch\<rparr>)"
  by (cases batch) (simp_all add: AddDebugInfo_def)

lemma FlushDebugInfo_ordered:
  "sync_option reader = kSyncWithRecords \<Longrightarrow>
   FlushDebugInfo env reader ts =
     (let batch = takeWhile (\<lambda>x. info_timestamp x < ts) (debug_info_q reader)
      in if batch = [] then (True, reader)
         else (debug_info_callback env batch False,
               reader\<lparr>debug_info_q := dropWhile (\<lambda>x. info_timestamp x < ts) (debug_info_q reader),
                      callback_calls := callback_calls reader @ [(batch, False)]\<rparr>))"
  by (cases "debug_info_q reader")
     (auto simp: FlushDebugInfo_def FlushDebugInfo_loop_eq q_top_def Let_def)

lemma FlushDebugInfo_other:
  "sync_option reader \<noteq> kSyncWithRecords \<Longrightarrow> FlushDebugInfo env reader ts = (True, reader)"
  by (simp add: FlushDebugInfo_def)


lemma delivered_timestamps_append:
  "delivered_timestamps (reader\<lparr>debug_info_q := q, callback_calls := callback_calls reader @ [(batch, flag)]\<rparr>) =
   delivered_timestamps reader @ map info_timestamp batch"
  by (simp add: delivered_timestamps_def)

lemma delivered_timestamps_q [simp]:
  "delivered_timestamps (reader\<lparr>debug_info_q := q\<rparr>) = delivered_timestamps reader"
  by (simp add: delivered_timestamps_def)

lemma inv_Add:
  assumes inv: "delivery_inv w reader"
    and ge: "list_all (\<lambda>info. w \<le> info_timestamp info) batch"
    and run: "AddDebugInfo env reader batch sync = (ret, reader')"
  shows "ret \<and> delivery_inv w reader'"
proof -
  from inv have ord: "sync_option reader = kSyncWithRecords" by (simp add: delivery_inv_def)
  let ?q = "foldl (\<lambda>q info. q_push info q) (debug_info_q reader) batch"
  from AddDebugInfo_ordered[OF ord, of env batch sync] run
  have r: "ret" "reader' = reader\<lparr>debug_info_q := ?q\<rparr>" by simp_all
  have s: "sorted (map info_timestamp ?q)"
    using inv by (simp add: delivery_inv_def push_all_sorted)
  have "\<forall>d \<in> set (delivered_timestamps reader). d < w \<and> (\<forall>x \<in> set ?q. d \<le> info_timestamp x)"
    using inv ge by (fastforce simp: delivery_inv_def list_all_iff push_all_set)
  with inv s r show ?thesis
    by (simp add: delivery_inv_def list_all_iff)
qed

lemma inv_Flush:
  assumes inv: "delivery_inv w reader"
    and run: "FlushDebugInfo env reader ts = (ret, reader')"
  shows "delivery_inv (max w ts) reader'"
proof -
  from inv have ord: "sync_option reader = kSyncWithRecords"
    and sq: "sorted (map info_timestamp (debug_info_q reader))"
    and sd: "sorted (delivered_timestamps reader)"
    and dq: "\<forall>d \<in> set (delivered_timestamps reader). d < w \<and>
               (\<forall>x \<in> set (debug_info_q reader). d \<le> info_timestamp x)"
    and fl: "\<forall>c \<in> set (callback_calls reader). \<not> snd c"
    by (simp_all add: delivery_inv_def list_all_iff)
  let ?P = "\<lambda>x. info_timestamp x < ts"
  let ?batch = "takeWhile ?P (debug_info_q reader)"
  let ?rest = "dropWhile ?P (debug_info_q reader)"
  show ?thesis
  proof (cases "?batch = []")
    case True
    with FlushDebugInfo_ordered[OF ord, of env ts] run have "reader' = reader"
      by (simp add: Let_def)
    moreover have "\<forall>d \<in> set (delivered_timestamps reader). d < max w ts"
      using dq by (auto simp: less_max_iff_disj)
    ultimately show ?thesis using inv dq
      by (simp add: delivery_inv_def list_all_iff)
  next
    case False
    with FlushDebugInfo_ordered[OF ord, of env ts] run
    have r: "reader' = reader\<lparr>debug_info_q := ?rest,
                callback_calls := callback_calls reader @ [(?batch, False)]\<rparr>"
      by (simp add: Let_def)
    have dt: "delivered_timestamps reader' = delivered_timestamps reader @ map info_timestamp ?batch"
      unfolding r by (rule delivered_timestamps_append)
    have sb: "sorted (map info_timestamp ?batch)"
      using sq by (simp add: sorted_map sorted_wrt_takeWhile)
    have db: "\<forall>d \<in> set (delivered_timestamps reader). \<forall>b \<in> set ?batch. d \<le> info_timestamp b"
      using dq by (meson set_takeWhileD)
    have s': "sorted (delivered_timestamps reader')"
      unfolding dt using sd sb db by (auto simp: sorted_append)
    have q': "sorted (map info_timestamp ?rest)"
      using sq by (simp add: sorted_map sorted_wrt_dropWhile)
    have old: "\<forall>d \<in> set (delivered_timestamps reader). d < max w ts \<and>
                 (\<forall>x \<in> set ?rest. d \<le> info_timestamp x)"
      using dq by (auto simp: less_max_iff_disj dest: set_dropWhileD)
    have new: "\<forall>b \<in> set ?batch. info_timestamp b < max w ts \<and>
                 (\<forall>x \<in> set ?rest. info_timestamp b \<le> info_timestamp x)"
    proof (intro ballI conjI)
      fix b assume b: "b \<in> set ?batch"
      then have "info_timestamp b < ts" by (meson set_takeWhileD)
      then show "info_timestamp b < max w ts" by (simp add: less_max_iff_disj)
      fix x assume "x \<in> set ?rest"
      with sorted_takeWhile_le_dropWhile[OF sq b] show "info_timestamp b \<le> info_timestamp x" by blast
    qed
    from s' q' old new fl ord show ?thesis
      unfolding delivery_inv_def list_all_iff dt by (auto simp: r)
  qed
qed

lemma deliver_inv:
  "delivery_inv w reader \<Longrightarrow> not_older w calls \<Longrightarrow> deliver env reader calls = (ret, reader') \<Longrightarrow>
   \<exists>w'. delivery_inv w' reader'"
proof (induction calls arbitrary: w reader)
  case Nil
  then show ?case by auto
next
  case (Cons c calls)
  show ?case
  proof (cases c)
    case (Add batch sync)
    obtain r1 reader1 where a: "AddDebugInfo env reader batch sync = (r1, reader1)"
      by (cases "AddDebugInfo env reader batch sync")
    from Cons.prems(2) Add have ge: "list_all (\<lambda>info. w \<le> info_timestamp info) batch"
      and rest: "not_older w calls" by simp_all
    from inv_Add[OF Cons.prems(1) ge a] have r1: "r1" and i1: "delivery_inv w reader1" by simp_all
    from Cons.prems(3) Add a r1 have "deliver env reader1 calls = (ret, reader')" by simp
    from Cons.IH[OF i1 rest this] show ?thesis .
  next
    case (Flush ts)
    obtain r1 reader1 where f: "FlushDebugInfo env reader ts = (r1, reader1)"
      by (cases "FlushDebugInfo env reader ts")
    from inv_Flush[OF Cons.prems(1) f] have i1: "delivery_inv (max w ts) reader1" .
    from Cons.prems(2) Flush have rest: "not_older (max w ts) calls" by simp
    show ?thesis
    proof (cases r1)
      case True
      with Cons.prems(3) Flush f have "deliver env reader1 calls = (ret, reader')" by simp
      from Cons.IH[OF i1 rest this] show ?thesis .
    next
      case False
      with Cons.prems(3) Flush f have "reader' = reader1" by simp
      with i1 show ?thesis by blast
    qed
  qed
qed

lemmas delivery_defs = AddDebugInfo_def FlushDebugInfo_def FlushDebugInfo_loop.simps q_push_def
  q_top_def q_pop_def

text \<open>
  Claim C6, as stated, fails: across flushes the delivered timestamps can decrease. A record
  of timestamp 5 is queued and flushed by watermark 10; a record of timestamp 3 is queued
  afterwards (a process read for the first time reports entries registered long ago) and
  flushed by the next watermark: the consumer sees 5, then 3.
\<close>

theorem late_record_is_delivered_out_of_order:
  "delivered_timestamps (snd (deliver env0 reader_ordered calls_late_record)) = [5, 3] \<and>
   \<not> sorted (delivered_timestamps (snd (deliver env0 reader_ordered calls_late_record))) \<and>
   sync_option reader_ordered = kSyncWithRecords \<and>
   callback_calls (snd (deliver env0 reader_ordered calls_late_record)) =
     [([info_at 5], False), ([info_at 3], False)]"
  by (simp add: delivery_defs delivered_timestamps_def calls_late_record_def reader_ordered_def reader0_def env0_def
      info_at_def)

text \<open>
  Claim C6, amended: in ordered mode every record of a watermark-driven batch has a
  timestamp strictly below that watermark, the batch is in non-decreasing timestamp order
  and is delivered with the sync-with-kernel-records flag false (first part, for a queue
  in timestamp order); and the timestamps delivered across all flushes are non-decreasing
  provided no record is queued with a timestamp below a watermark that was flushed before
  it (second part, from an empty queue).
\<close>

theorem ordered_delivery:
  "(sync_option reader = kSyncWithRecords \<and>
    sorted (map info_timestamp (debug_info_q reader)) \<and>
    FlushDebugInfo env reader ts = (ret, reader') \<longrightarrow>
      callback_calls reader' = callback_calls reader \<or>
      (\<exists>batch. callback_calls reader' = callback_calls reader @ [(batch, False)] \<and>
         list_all (\<lambda>x. info_timestamp x < ts) batch \<and> sorted (map info_timestamp batch))) \<and>
   (sync_option reader = kSyncWithRecords \<and> debug_info_q reader = [] \<and>
    callback_calls reader = [] \<and> not_older 0 calls \<and>
    deliver env reader calls = (ret, reader') \<longrightarrow>
      sorted (delivered_timestamps reader') \<and>
      list_all (\<lambda>c. \<not> snd c) (callback_calls reader'))"
proof (intro conjI impI)
  assume a: "sync_option reader = kSyncWithRecords \<and>
    sorted (map info_timestamp (debug_info_q reader)) \<and>
    FlushDebugInfo env reader ts = (ret, reader')"
  let ?batch = "takeWhile (\<lambda>x. info_timestamp x < ts) (debug_info_q reader)"
  from a have ord: "sync_option reader = kSyncWithRecords"
    and sq: "sorted (map info_timestamp (debug_info_q reader))"
    and run: "FlushDebugInfo env reader ts = (ret, reader')" by simp_all
  have below: "list_all (\<lambda>x. info_timestamp x < ts) ?batch"
    by (auto simp: list_all_iff dest: set_takeWhileD)
  have sb: "sorted (map info_timestamp ?batch)"
    using sq by (simp add: sorted_map sorted_wrt_takeWhile)
  show "callback_calls reader' = callback_calls reader \<or>
      (\<exists>batch. callback_calls reader' = callback_calls reader @ [(batch, False)] \<and>
         list_all (\<lambda>x. info_timestamp x < ts) batch \<and> sorted (map info_timestamp batch))"
  proof (cases "?batch = []")
    case True
    with FlushDebugInfo_ordered[OF ord, of env ts] run show ?thesis by (simp add: Let_def)
  next
    case False
    with FlushDebugInfo_ordered[OF ord, of env ts] run
    have "callback_calls reader' = callback_calls reader @ [(?batch, False)]"
      by (auto simp: Let_def)
    with below sb show ?thesis by blast
  qed
next
  assume a: "sync_option reader = kSyncWithRecords \<and> debug_info_q reader = [] \<and>
    callback_calls reader = [] \<and> not_older 0 calls \<and>
    deliver env reader calls = (ret, reader')"
  then have "delivery_inv 0 reader"
    by (simp add: delivery_inv_def delivered_timestamps_def)
  from deliver_inv[OF this, of calls env ret reader'] a
  obtain w' where "delivery_inv w' reader'" by blast
  then show "sorted (delivered_timestamps reader')"
    and "list_all (\<lambda>c. \<not> snd c) (callback_calls reader')"
    by (simp_all add: delivery_inv_def)
qed

theorem ordered_delivery_witness:
  "delivered_timestamps (snd (deliver env0 reader_ordered calls_in_time)) = [3, 5, 7] \<and>
   sorted (delivered_timestamps (snd (deliver env0 reader_ordered calls_in_time))) \<and>
   list_all (\<lambda>c. \<not> snd c) (callback_calls (snd (deliver env0 reader_ordered calls_in_time))) \<and>
   callback_calls (snd (FlushDebugInfo env0
       (reader_ordered\<lparr>debug_info_q := [info_at 3, info_at 5]\<rparr>) 4)) = [([info_at 3], False)]"
proof -
  let ?r = "deliver env0 reader_ordered calls_in_time"
  let ?q = "reader_ordered\<lparr>debug_info_q := [info_at 3, info_at 5]\<rparr>"
  let ?f = "FlushDebugInfo env0 ?q 4"
  have ord: "sync_option reader_ordered = kSyncWithRecords" "debug_info_q reader_ordered = []"
    "callback_calls reader_ordered = []"
    by (simp_all add: reader_ordered_def reader0_def)
  have timely: "not_older 0 calls_in_time" by (simp add: calls_in_time_def info_at_def)
  have r: "?r = (fst ?r, snd ?r)" by simp
  have ts: "delivered_timestamps (snd ?r) = [3, 5, 7]"
    by (simp add: delivery_defs delivered_timestamps_def calls_in_time_def reader_ordered_def reader0_def env0_def
        info_at_def)
  have ordq: "sync_option ?q = kSyncWithRecords" "sorted (map info_timestamp (debug_info_q ?q))"
    by (simp_all add: reader_ordered_def reader0_def info_at_def)
  have f: "?f = (fst ?f, snd ?f)" by simp
  have one: "callback_calls (snd ?f) = [([info_at 3], False)]"
    by (simp add: delivery_defs delivered_timestamps_def reader_ordered_def reader0_def env0_def info_at_def)
  from ordered_delivery[where reader=reader_ordered and env=env0 and calls=calls_in_time
      and ret="fst ?r" and reader'="snd ?r"] ord timely r
  have "sorted (delivered_timestamps (snd ?r)) \<and>
        list_all (\<lambda>c. \<not> snd c) (callback_calls (snd ?r))" by blast
  with ts one show ?thesis by simp
qed

lemma AddDebugInfo_calls:
  assumes "AddDebugInfo env reader debug_info sync = (ret, reader')"
  shows "callback_calls reader' = callback_calls reader \<or>
         (debug_info \<noteq> [] \<and> callback_calls reader' = callback_calls reader @ [(debug_info, sync)])"
  using assms by (auto simp: AddDebugInfo_def split: if_splits)

lemma FlushDebugInfo_calls:
  assumes "FlushDebugInfo env reader ts = (ret, reader')"
  shows "callback_calls reader' = callback_calls reader \<or>
         (\<exists>batch. batch \<noteq> [] \<and> callback_calls reader' = callback_calls reader @ [(batch, False)] \<and>
            sync_option reader = kSyncWithRecords \<and>
            list_ex (\<lambda>x. info_timestamp x < ts) (debug_info_q reader))"
proof (cases "sync_option reader = kSyncWithRecords")
  case False
  with assms FlushDebugInfo_other[OF False, of env ts] show ?thesis by simp
next
  case True
  let ?batch = "takeWhile (\<lambda>x. info_timestamp x < ts) (debug_info_q reader)"
  show ?thesis
  proof (cases "?batch = []")
    case e: True
    with FlushDebugInfo_ordered[OF True, of env ts] assms show ?thesis by (simp add: Let_def)
  next
    case ne: False
    with FlushDebugInfo_ordered[OF True, of env ts] assms
    have c: "callback_calls reader' = callback_calls reader @ [(?batch, False)]"
      by (auto simp: Let_def)
    from ne obtain x where "x \<in> set ?batch" by (cases ?batch) auto
    then have "x \<in> set (debug_info_q reader)" "info_timestamp x < ts"
      by (auto dest: set_takeWhileD)
    then have "list_ex (\<lambda>x. info_timestamp x < ts) (debug_info_q reader)"
      by (auto simp: list_ex_iff)
    with c ne True show ?thesis by blast
  qed
qed

lemma deliver_nonempty:
  "list_all (\<lambda>c. fst c \<noteq> []) (callback_calls reader) \<Longrightarrow>
   deliver env reader calls = (ret, reader') \<Longrightarrow>
   list_all (\<lambda>c. fst c \<noteq> []) (callback_calls reader')"
proof (induction calls arbitrary: reader)
  case Nil
  then show ?case by simp
next
  case (Cons c calls)
  show ?case
  proof (cases c)
    case (Add batch sync)
    obtain r1 reader1 where a: "AddDebugInfo env reader batch sync = (r1, reader1)"
      by (cases "AddDebugInfo env reader batch sync")
    from AddDebugInfo_calls[OF a] Cons.prems(1)
    have n1: "list_all (\<lambda>c. fst c \<noteq> []) (callback_calls reader1)" by auto
    show ?thesis
    proof (cases r1)
      case True
      with Cons.prems(2) Add a have "deliver env reader1 calls = (ret, reader')" by simp
      from Cons.IH[OF n1 this] show ?thesis .
    next
      case False
      with Cons.prems(2) Add a have "reader' = reader1" by simp
      with n1 show ?thesis by simp
    qed
  next
    case (Flush ts)
    obtain r1 reader1 where f: "FlushDebugInfo env reader ts = (r1, reader1)"
      by (cases "FlushDebugInfo env reader ts")
    from FlushDebugInfo_calls[OF f] Cons.prems(1)
    have n1: "list_all (\<lambda>c. fst c \<noteq> []) (callback_calls reader1)" by auto
    show ?thesis
    proof (cases r1)
      case True
      with Cons.prems(2) Flush f have "deliver env reader1 calls = (ret, reader')" by simp
      from Cons.IH[OF n1 this] show ?thesis .
    next
      case False
      with Cons.prems(2) Flush f have "reader' = reader1" by simp
      with n1 show ?thesis by simp
    qed
  qed
qed

text \<open>
  Claim C10: the callback is never called with an empty batch. \<^verbatim>\<open>AddDebugInfo\<close> with an
  empty vector returns true and calls nothing (first part); when it calls the callback the
  batch is the non-empty vector it was given (second part); \<^verbatim>\<open>FlushDebugInfo\<close> calls it
  only in ordered mode, only when some queued record has a timestamp below the watermark,
  and with a non-empty batch (third part); so over any run of the delivery stage every
  call has a non-empty batch (fourth part).
\<close>

theorem callback_never_gets_empty_batch:
  "AddDebugInfo env reader [] sync = (True, reader) \<and>
   (AddDebugInfo env reader debug_info sync = (ret, reader') \<longrightarrow>
      callback_calls reader' = callback_calls reader \<or>
      (debug_info \<noteq> [] \<and> callback_calls reader' = callback_calls reader @ [(debug_info, sync)])) \<and>
   (FlushDebugInfo env reader ts = (ret, reader') \<longrightarrow>
      callback_calls reader' = callback_calls reader \<or>
      (\<exists>batch. batch \<noteq> [] \<and> callback_calls reader' = callback_calls reader @ [(batch, False)] \<and>
         sync_option reader = kSyncWithRecords \<and>
         list_ex (\<lambda>x. info_timestamp x < ts) (debug_info_q reader))) \<and>
   (list_all (\<lambda>c. fst c \<noteq> []) (callback_calls reader) \<and>
    deliver env reader calls = (ret, reader') \<longrightarrow>
      list_all (\<lambda>c. fst c \<noteq> []) (callback_calls reader'))"
  using AddDebugInfo_calls[of env reader debug_info sync ret reader']
    FlushDebugInfo_calls[of env reader ts ret reader']
    deliver_nonempty[of reader env calls ret reader']
  by (simp add: AddDebugInfo_def)

theorem callback_never_gets_empty_batch_witness:
  "AddDebugInfo env0 reader0 [] True = (True, reader0) \<and>
   callback_calls (snd (deliver env0 reader0 calls_with_empty)) = [([info_at 5], True)] \<and>
   callback_calls (snd (deliver env0 reader_ordered calls_with_empty)) = [([info_at 5], False)] \<and>
   list_all (\<lambda>c. fst c \<noteq> []) (callback_calls (snd (deliver env0 reader_ordered calls_with_empty)))"
proof -
  let ?r = "deliver env0 reader_ordered calls_with_empty"
  have none: "list_all (\<lambda>c. fst c \<noteq> []) (callback_calls reader_ordered)"
    by (simp add: reader_ordered_def reader0_def)
  have r: "?r = (fst ?r, snd ?r)" by simp
  have imm: "callback_calls (snd (deliver env0 reader0 calls_with_empty)) = [([info_at 5], True)]"
    by (simp add: delivery_defs calls_with_empty_def reader0_def env0_def info_at_def)
  have ord: "callback_calls (snd ?r) = [([info_at 5], False)]"
    by (simp add: delivery_defs calls_with_empty_def reader_ordered_def reader0_def env0_def
        info_at_def)
  from callback_never_gets_empty_batch[where env=env0 and reader=reader0 and sync=True]
  have a: "AddDebugInfo env0 reader0 [] True = (True, reader0)" by simp
  from callback_never_gets_empty_batch[where env=env0 and reader=reader_ordered
      and calls=calls_with_empty and ret="fst ?r" and reader'="snd ?r"] none r
  have "list_all (\<lambda>c. fst c \<noteq> []) (callback_calls (snd ?r))" by simp
  with a imm ord show ?thesis by simp
qed


section \<open>Dex entries and the memory map\<close>

text \<open>
  On a range that \<open>cmp\<close> splits into a part where it holds followed by a part where it
  fails, the binary search returns the index where the second part begins.
\<close>

lemma lower_bound_loop_partition:
  assumes "first + n \<le> length xs"
    and "\<forall>i < first. cmp (xs ! i)"
    and "\<forall>i. first + n \<le> i \<and> i < length xs \<longrightarrow> \<not> cmp (xs ! i)"
    and "\<forall>i j. i \<le> j \<and> j < length xs \<and> cmp (xs ! j) \<longrightarrow> cmp (xs ! i)"
  shows "(\<forall>i < lower_bound_loop xs cmp first n. cmp (xs ! i)) \<and>
         (\<forall>i. lower_bound_loop xs cmp first n \<le> i \<and> i < length xs \<longrightarrow> \<not> cmp (xs ! i)) \<and>
         lower_bound_loop xs cmp first n \<le> length xs"
  using assms
proof (induction xs cmp first n rule: lower_bound_loop.induct)
  case (1 xs cmp first n)
  show ?case
  proof (cases "n > 0")
    case False
    then have "lower_bound_loop xs cmp first n = first"
      by (subst lower_bound_loop.simps) simp
    with "1.prems" False show ?thesis by simp
  next
    case True
    let ?half = "n div 2"
    let ?middle = "first + ?half"
    have mid: "?middle < length xs" using True "1.prems"(1) by arith
    show ?thesis
    proof (cases "cmp (xs ! ?middle)")
      case c: True
      have eq: "lower_bound_loop xs cmp first n = lower_bound_loop xs cmp (?middle + 1) (n - ?half - 1)"
        using True c by (subst lower_bound_loop.simps) (simp add: Let_def)
      have a1: "?middle + 1 + (n - ?half - 1) \<le> length xs" using "1.prems"(1) True by arith
      have a2: "\<forall>i < ?middle + 1. cmp (xs ! i)"
      proof (intro allI impI)
        fix i assume "i < ?middle + 1"
        then have "i \<le> ?middle" by simp
        with c mid "1.prems"(4) show "cmp (xs ! i)" by blast
      qed
      have a3: "\<forall>i. ?middle + 1 + (n - ?half - 1) \<le> i \<and> i < length xs \<longrightarrow> \<not> cmp (xs ! i)"
      proof (intro allI impI)
        fix i assume "?middle + 1 + (n - ?half - 1) \<le> i \<and> i < length xs"
        moreover have "?middle + 1 + (n - ?half - 1) = first + n" using True by arith
        ultimately show "\<not> cmp (xs ! i)" using "1.prems"(3) by simp
      qed
      from "1.IH"(1)[OF True refl refl c a1 a2 a3 "1.prems"(4)] eq show ?thesis by simp
    next
      case c: False
      have eq: "lower_bound_loop xs cmp first n = lower_bound_loop xs cmp first ?half"
        using True c by (subst lower_bound_loop.simps) (simp add: Let_def)
      have a1: "first + ?half \<le> length xs" using mid by simp
      have a3: "\<forall>i. first + ?half \<le> i \<and> i < length xs \<longrightarrow> \<not> cmp (xs ! i)"
        using c "1.prems"(4) by blast
      from "1.IH"(2)[OF True refl refl c a1 "1.prems"(2) a3 "1.prems"(4)] eq show ?thesis by simp
    qed
  qed
qed


lemma lower_bound_sorted:
  assumes "sorted (map start_addr thread_mmaps)"
  shows "(\<forall>i < lower_bound thread_mmaps (\<lambda>m. start_addr m \<le> a).
            start_addr (thread_mmaps ! i) \<le> a) \<and>
         (\<forall>i. lower_bound thread_mmaps (\<lambda>m. start_addr m \<le> a) \<le> i \<and> i < length thread_mmaps \<longrightarrow>
              a < start_addr (thread_mmaps ! i)) \<and>
         lower_bound thread_mmaps (\<lambda>m. start_addr m \<le> a) \<le> length thread_mmaps"
proof -
  have mono: "\<forall>i j. i \<le> j \<and> j < length thread_mmaps \<and> start_addr (thread_mmaps ! j) \<le> a \<longrightarrow>
                start_addr (thread_mmaps ! i) \<le> a"
  proof (intro allI impI)
    fix i j assume h: "i \<le> j \<and> j < length thread_mmaps \<and> start_addr (thread_mmaps ! j) \<le> a"
    then have "map start_addr thread_mmaps ! i \<le> map start_addr thread_mmaps ! j"
      using assms(1) by (simp add: sorted_iff_nth_mono del: nth_map)
    with h show "start_addr (thread_mmaps ! i) \<le> a" by (auto elim: order_trans)
  qed
  have p1: "0 + length thread_mmaps \<le> length thread_mmaps" by simp
  have p2: "\<forall>i < 0. start_addr (thread_mmaps ! i) \<le> a" by simp
  have p3: "\<forall>i. 0 + length thread_mmaps \<le> i \<and> i < length thread_mmaps \<longrightarrow>
              \<not> start_addr (thread_mmaps ! i) \<le> a" by auto
  from lower_bound_loop_partition[where cmp="\<lambda>m. start_addr m \<le> a", OF p1 p2 p3 mono]
  show ?thesis unfolding lower_bound_def by (simp add: not_le)
qed

lemma dex_entry_contained_without_wrap:
  assumes sorted: "sorted (map start_addr thread_mmaps)"
    and emitted: "ReadDexFileDebugInfo_entry env process thread_mmaps dex_entry = Some info"
    and entry_no_wrap: "unat (code_symfile_addr dex_entry) + unat (code_symfile_size dex_entry) < 2 ^ 64"
    and maps_no_wrap: "\<forall>m \<in> set thread_mmaps. unat (start_addr m) + unat (len m) < 2 ^ 64"
  shows "\<exists>k < length thread_mmaps.
           start_addr (thread_mmaps ! k) \<le> code_symfile_addr dex_entry \<and>
           unat (code_symfile_addr dex_entry) + unat (code_symfile_size dex_entry) \<le>
             unat (start_addr (thread_mmaps ! k)) + unat (len (thread_mmaps ! k)) \<and>
           (\<forall>j. k < j \<and> j < length thread_mmaps \<longrightarrow>
                code_symfile_addr dex_entry < start_addr (thread_mmaps ! j)) \<and>
           (\<exists>file_path extracted.
              info = DexFileDebugInfo (pid process) (timestamp dex_entry)
                       (code_symfile_addr dex_entry - start_addr (thread_mmaps ! k) +
                          pgoff (thread_mmaps ! k))
                       file_path extracted)"
proof -
  let ?a = "code_symfile_addr dex_entry"
  let ?k = "lower_bound thread_mmaps (\<lambda>m. start_addr m \<le> ?a)"
  from lower_bound_sorted[OF sorted, of ?a] have
    below: "\<forall>i < ?k. start_addr (thread_mmaps ! i) \<le> ?a"
    and above: "\<forall>i. ?k \<le> i \<and> i < length thread_mmaps \<longrightarrow> ?a < start_addr (thread_mmaps ! i)"
    and le: "?k \<le> length thread_mmaps" by simp_all
  from emitted have k0: "?k \<noteq> 0"
    by (auto simp: ReadDexFileDebugInfo_entry_def Let_def split: if_splits)
  let ?m = "thread_mmaps ! (?k - 1)"
  have lt: "?k - 1 < length thread_mmaps" using k0 le by simp
  from emitted k0 have nlt: "\<not> start_addr ?m + len ?m < ?a + code_symfile_size dex_entry"
    by (auto simp: ReadDexFileDebugInfo_entry_def Let_def split: if_splits)
  from emitted k0 have info: "\<exists>file_path extracted.
              info = DexFileDebugInfo (pid process) (timestamp dex_entry)
                       (?a - start_addr ?m + pgoff ?m) file_path extracted"
    by (auto simp: ReadDexFileDebugInfo_entry_def Let_def split: if_splits option.splits)
  have "?m \<in> set thread_mmaps" using lt by simp
  with maps_no_wrap have "unat (start_addr ?m) + unat (len ?m) < 2 ^ 64" by blast
  then have m: "unat (start_addr ?m + len ?m) = unat (start_addr ?m) + unat (len ?m)"
    by (simp add: unat_add_lem[THEN iffD1])
  from entry_no_wrap have e: "unat (?a + code_symfile_size dex_entry) =
      unat ?a + unat (code_symfile_size dex_entry)"
    by (simp add: unat_add_lem[THEN iffD1])
  from nlt have "unat (?a + code_symfile_size dex_entry) \<le> unat (start_addr ?m + len ?m)"
    by (simp add: word_less_nat_alt)
  with m e have contained: "unat ?a + unat (code_symfile_size dex_entry) \<le>
      unat (start_addr ?m) + unat (len ?m)" by simp
  have start: "start_addr ?m \<le> ?a" using below k0 by simp
  have later: "\<forall>j. ?k - 1 < j \<and> j < length thread_mmaps \<longrightarrow> ?a < start_addr (thread_mmaps ! j)"
    using above by auto
  from lt start contained later info show ?thesis by blast
qed

text \<open>
  Claim C8: an emitted dex entry lies within the chosen mapping, the mapping is the last
  one that starts at or below \<^verbatim>\<open>symfile_addr\<close>, and the offset is
  \<^verbatim>\<open>symfile_addr - start + pgoff\<close>. By \<open>dex_entry_contained_without_wrap\<close> the code
  does this on a sorted memory map as long as neither sum of the containment test wraps
  around. The test itself is done in 64-bit arithmetic: for the entry below, which starts
  at 0x7800 inside the mapping [0x7000, 0x8000) and whose size is 0xFFFFFFFFFFFFF000, the
  sum \<^verbatim>\<open>symfile_addr + symfile_size\<close> wraps to 0x6800, the test passes, and a record is
  emitted for an entry that no mapping contains.
\<close>

theorem wrapping_dex_entry_is_emitted:
  "ReadDexFileDebugInfo_entry env0 process_fresh [mmap_vdex] dex_entry_wrapping =
     Some (DexFileDebugInfo 42 100 0x800 ''/data/app/base.vdex'' None) \<and>
   unat (start_addr mmap_vdex) + unat (len mmap_vdex) <
     unat (code_symfile_addr dex_entry_wrapping) + unat (code_symfile_size dex_entry_wrapping) \<and>
   code_symfile_addr dex_entry_wrapping + code_symfile_size dex_entry_wrapping = 0x6800"
  by (simp add: ReadDexFileDebugInfo_entry_def lower_bound_def lower_bound_loop.simps Let_def
      mmap_vdex_def dex_entry_wrapping_def env0_def process_fresh_def)

end
